theory Spec2Isabelle
  imports Main "HOL-Library.Sublist"
begin

section \<open>Data model (shared/schema)\<close>

text \<open>
  The tables of the schema, one record per row type.  Columns whose names occur in several
  tables carry a one-letter prefix (\<open>s_\<close> session, \<open>t_\<close> task, \<open>m_\<close> message,
  \<open>a_\<close> approval, \<open>e_\<close> stream event, \<open>c_\<close> socket client); the other columns keep
  the names of the source.  The \<open>text\<close> status columns range over the values their
  schema comments list.  Timestamps are natural numbers; a handler reads the clock through
  its parameter \<open>now\<close>, and all its reads within one request return that value.
  Identifiers drawn by \<open>gen_random_uuid()\<close> are a parameter of the insert, and the insert
  fails when the primary key is taken.  The \<open>users\<close> table is not modelled, so the foreign
  key of \<open>s_userId\<close> is not checked.
\<close>

datatype SessionStatus = Idle | SessionRunning | Paused | SessionCompleted | SessionFailed

datatype TaskStatus = Pending | Running | Completed | Failed | Cancelled

datatype ApprovalStatus = ApprovalPending | Approved | Rejected

datatype Action =
    check_tool | install_tool | call_tool | read_file | write_file | delete_file
  | git_clone | git_commit | git_push | git_create_branch | git_create_pr
  | save_artifact | get_artifact | shell_exec | python_exec | docker_run | wait_approval

record ActionStep =
  action :: Action
  target :: "string option"
  args :: "(string \<times> string) list option"
  step_description :: "string option"

record Session =
  s_id :: string
  s_userId :: "string option"
  s_name :: string
  s_status :: SessionStatus
  dryRunMode :: bool
  allowDestructive :: bool
  workspaceDir :: "string option"
  s_createdAt :: nat
  s_updatedAt :: nat

record Task =
  t_id :: string
  t_sessionId :: string
  title :: string
  description :: "string option"
  t_status :: TaskStatus
  plan :: "ActionStep list option"
  currentStep :: "int option"
  totalSteps :: "int option"
  error :: "string option"
  retryCount :: "int option"
  t_createdAt :: nat
  t_updatedAt :: nat

record Message =
  m_id :: string
  m_sessionId :: string
  role :: string
  content :: string
  m_createdAt :: nat

record Approval =
  a_id :: string
  a_sessionId :: string
  a_taskId :: "string option"
  a_action :: string
  details :: "(string \<times> string) list option"
  a_status :: ApprovalStatus
  a_createdAt :: nat
  resolvedAt :: "nat option"

text \<open>The insert types: the columns a caller supplies; an absent optional column takes its
  default.\<close>

record InsertSession =
  is_userId :: "string option"
  is_name :: string
  is_status :: "SessionStatus option"
  is_dryRunMode :: "bool option"
  is_allowDestructive :: "bool option"
  is_workspaceDir :: "string option"

record InsertTask =
  it_sessionId :: string
  it_title :: string
  it_description :: "string option"
  it_status :: "TaskStatus option"
  it_plan :: "ActionStep list option"
  it_currentStep :: "int option"
  it_totalSteps :: "int option"
  it_error :: "string option"
  it_retryCount :: "int option"

record InsertMessage =
  im_sessionId :: string
  im_role :: string
  im_content :: string

record InsertApproval =
  ia_sessionId :: string
  ia_taskId :: "string option"
  ia_action :: string
  ia_details :: "(string \<times> string) list option"
  ia_status :: "ApprovalStatus option"

text \<open>A \<open>Partial<Insert...>\<close> argument of an update is the list of the columns it sets.\<close>

datatype SessionField =
    SetName string
  | SetSessionStatus SessionStatus
  | SetDryRunMode bool
  | SetAllowDestructive bool
  | SetWorkspaceDir "string option"

datatype TaskField =
    SetTitle string
  | SetDescription "string option"
  | SetStatus TaskStatus
  | SetPlan "ActionStep list option"
  | SetCurrentStep "int option"
  | SetTotalSteps "int option"
  | SetError "string option"
  | SetRetryCount "int option"

fun setSessionField :: "SessionField \<Rightarrow> Session \<Rightarrow> Session" where
  "setSessionField (SetName v) s = s\<lparr>s_name := v\<rparr>"
| "setSessionField (SetSessionStatus v) s = s\<lparr>s_status := v\<rparr>"
| "setSessionField (SetDryRunMode v) s = s\<lparr>dryRunMode := v\<rparr>"
| "setSessionField (SetAllowDestructive v) s = s\<lparr>allowDestructive := v\<rparr>"
| "setSessionField (SetWorkspaceDir v) s = s\<lparr>workspaceDir := v\<rparr>"

fun setTaskField :: "TaskField \<Rightarrow> Task \<Rightarrow> Task" where
  "setTaskField (SetTitle v) t = t\<lparr>title := v\<rparr>"
| "setTaskField (SetDescription v) t = t\<lparr>description := v\<rparr>"
| "setTaskField (SetStatus v) t = t\<lparr>t_status := v\<rparr>"
| "setTaskField (SetPlan v) t = t\<lparr>plan := v\<rparr>"
| "setTaskField (SetCurrentStep v) t = t\<lparr>currentStep := v\<rparr>"
| "setTaskField (SetTotalSteps v) t = t\<lparr>totalSteps := v\<rparr>"
| "setTaskField (SetError v) t = t\<lparr>error := v\<rparr>"
| "setTaskField (SetRetryCount v) t = t\<lparr>retryCount := v\<rparr>"

section \<open>The store (server/storage.ts, DatabaseStorage)\<close>

text \<open>
  A table is the list of its rows in the order a scan of the table yields them.  An insert
  into the sessions, the tasks or the messages appends: these tables are read by primary
  key or through an \<open>orderBy\<close>.  The approvals are read without one; for them see
  \<open>createApproval\<close>.  A query without \<open>orderBy\<close> returns the matching rows in scan
  order.  An update
  rewrites every row its \<open>where\<close> clause matches and returns the first of them
  (\<open>const [row] = ... returning()\<close>), or nothing when no row matched.
\<close>

record Database =
  sessions :: "Session list"
  tasks :: "Task list"
  messages :: "Message list"
  approvals :: "Approval list"

datatype HttpError = BadRequest string | NotFound string | ServerError string

definition getSession :: "Database \<Rightarrow> string \<Rightarrow> Session option" where
  "getSession d i = find (\<lambda>s. s_id s = i) (sessions d)"

definition createSession ::
  "Database \<Rightarrow> InsertSession \<Rightarrow> string \<Rightarrow> nat \<Rightarrow> HttpError + (Database \<times> Session)" where
  "createSession d ins newId now =
     (if newId \<in> set (map s_id (sessions d)) then Inl (ServerError ''duplicate key'')
      else
        let session = \<lparr> s_id = newId, s_userId = is_userId ins, s_name = is_name ins,
              s_status = (case is_status ins of None \<Rightarrow> Idle | Some v \<Rightarrow> v),
              dryRunMode = (case is_dryRunMode ins of None \<Rightarrow> True | Some v \<Rightarrow> v),
              allowDestructive = (case is_allowDestructive ins of None \<Rightarrow> False | Some v \<Rightarrow> v),
              workspaceDir = is_workspaceDir ins, s_createdAt = now, s_updatedAt = now \<rparr>
        in Inr (d\<lparr>sessions := sessions d @ [session]\<rparr>, session))"

definition updateSession ::
  "Database \<Rightarrow> string \<Rightarrow> SessionField list \<Rightarrow> nat \<Rightarrow> Database \<times> Session option" where
  "updateSession d i updates now =
     (let rows = map (\<lambda>s. if s_id s = i then (fold setSessionField updates s)\<lparr>s_updatedAt := now\<rparr>
                            else s) (sessions d)
      in (d\<lparr>sessions := rows\<rparr>, find (\<lambda>s. s_id s = i) rows))"

definition getTask :: "Database \<Rightarrow> string \<Rightarrow> Task option" where
  "getTask d i = find (\<lambda>t. t_id t = i) (tasks d)"

text \<open>\<open>orderBy(desc(tasks.createdAt))\<close>: the newest task first.\<close>

definition getTasksBySession :: "Database \<Rightarrow> string \<Rightarrow> Task list" where
  "getTasksBySession d sid =
     rev (sort_key t_createdAt (filter (\<lambda>t. t_sessionId t = sid) (tasks d)))"

text \<open>The \<open>integer\<close> columns hold 32 bits: an insert of a value outside that range is
  refused by the database.\<close>

definition int32 :: "int option \<Rightarrow> bool" where
  "int32 v = (case v of None \<Rightarrow> True | Some n \<Rightarrow> - 2147483648 \<le> n \<and> n < 2147483648)"

definition createTask ::
  "Database \<Rightarrow> InsertTask \<Rightarrow> string \<Rightarrow> nat \<Rightarrow> HttpError + (Database \<times> Task)" where
  "createTask d ins newId now =
     (if newId \<in> set (map t_id (tasks d)) then Inl (ServerError ''duplicate key'')
      else if it_sessionId ins \<notin> set (map s_id (sessions d))
        then Inl (ServerError ''foreign key violation'')
      else if \<not> (int32 (it_currentStep ins) \<and> int32 (it_totalSteps ins) \<and> int32 (it_retryCount ins))
        then Inl (ServerError ''integer out of range'')
      else
        let task = \<lparr> t_id = newId, t_sessionId = it_sessionId ins, title = it_title ins,
              description = it_description ins,
              t_status = (case it_status ins of None \<Rightarrow> Pending | Some v \<Rightarrow> v),
              plan = it_plan ins,
              currentStep = (case it_currentStep ins of None \<Rightarrow> Some 0 | Some v \<Rightarrow> Some v),
              totalSteps = (case it_totalSteps ins of None \<Rightarrow> Some 0 | Some v \<Rightarrow> Some v),
              error = it_error ins,
              retryCount = (case it_retryCount ins of None \<Rightarrow> Some 0 | Some v \<Rightarrow> Some v),
              t_createdAt = now, t_updatedAt = now \<rparr>
        in Inr (d\<lparr>tasks := tasks d @ [task]\<rparr>, task))"

definition updateTask ::
  "Database \<Rightarrow> string \<Rightarrow> TaskField list \<Rightarrow> nat \<Rightarrow> Database \<times> Task option" where
  "updateTask d i updates now =
     (let rows = map (\<lambda>t. if t_id t = i then (fold setTaskField updates t)\<lparr>t_updatedAt := now\<rparr>
                            else t) (tasks d)
      in (d\<lparr>tasks := rows\<rparr>, find (\<lambda>t. t_id t = i) rows))"

definition createMessage ::
  "Database \<Rightarrow> InsertMessage \<Rightarrow> string \<Rightarrow> nat \<Rightarrow> HttpError + (Database \<times> Message)" where
  "createMessage d ins newId now =
     (if newId \<in> set (map m_id (messages d)) then Inl (ServerError ''duplicate key'')
      else if im_sessionId ins \<notin> set (map s_id (sessions d))
        then Inl (ServerError ''foreign key violation'')
      else
        let message = \<lparr> m_id = newId, m_sessionId = im_sessionId ins, role = im_role ins,
              content = im_content ins, m_createdAt = now \<rparr>
        in Inr (d\<lparr>messages := messages d @ [message]\<rparr>, message))"

definition getApproval :: "Database \<Rightarrow> string \<Rightarrow> Approval option" where
  "getApproval d i = find (\<lambda>a. a_id a = i) (approvals d)"

text \<open>\<open>where(and(eq(sessionId), eq(status, "pending")))\<close>, with no \<open>orderBy\<close>.\<close>

definition getPendingApprovals :: "Database \<Rightarrow> string \<Rightarrow> Approval list" where
  "getPendingApprovals d sid =
     filter (\<lambda>a. a_sessionId a = sid \<and> a_status a = ApprovalPending) (approvals d)"

text \<open>The database may place a new row in a slot an earlier update freed, so the place of
  the new approval in the scan order is a parameter of the insert (\<open>slot\<close>).\<close>

definition createApproval ::
  "Database \<Rightarrow> InsertApproval \<Rightarrow> string \<Rightarrow> nat \<Rightarrow> nat \<Rightarrow> HttpError + (Database \<times> Approval)" where
  "createApproval d ins newId slot now =
     (if newId \<in> set (map a_id (approvals d)) then Inl (ServerError ''duplicate key'')
      else if ia_sessionId ins \<notin> set (map s_id (sessions d))
        then Inl (ServerError ''foreign key violation'')
      else if (case ia_taskId ins of None \<Rightarrow> False | Some k \<Rightarrow> k \<notin> set (map t_id (tasks d)))
        then Inl (ServerError ''foreign key violation'')
      else
        let approval = \<lparr> a_id = newId, a_sessionId = ia_sessionId ins, a_taskId = ia_taskId ins,
              a_action = ia_action ins, details = ia_details ins,
              a_status = (case ia_status ins of None \<Rightarrow> ApprovalPending | Some v \<Rightarrow> v),
              a_createdAt = now, resolvedAt = None \<rparr>
        in Inr (d\<lparr>approvals := take slot (approvals d) @ [approval] @ drop slot (approvals d)\<rparr>,
                approval))"

text \<open>The parameter type of the source is \<open>"approved" | "rejected"\<close>; the \<open>where\<close> clause
  tests the id alone.\<close>

definition resolveApproval ::
  "Database \<Rightarrow> string \<Rightarrow> ApprovalStatus \<Rightarrow> nat \<Rightarrow> Database \<times> Approval option" where
  "resolveApproval d i status now =
     (let rows = map (\<lambda>a. if a_id a = i then a\<lparr>a_status := status, resolvedAt := Some now\<rparr>
                            else a) (approvals d)
      in (d\<lparr>approvals := rows\<rparr>, find (\<lambda>a. a_id a = i) rows))"

section \<open>The streaming service (server/websocket.ts)\<close>

text \<open>
  A \<open>WebSocket\<close> object lives outside the service and is shared by reference: the service
  holds a heap of sockets, addressed by a number, and a client names its socket by that
  number (\<open>c.ws !== client.ws\<close> compares references).  Of a socket the service reads
  \<open>readyState\<close> and calls \<open>send\<close>; \<open>outbox\<close> is the sequence of messages handed to
  \<open>send\<close>, in order.  A message is the event itself (\<open>JSON.stringify\<close> is left out).
\<close>

datatype StreamEventType =
    session_start | session_end | task_start | task_step | task_complete | task_error
  | log_line | stdout | stderr | approval_required | approval_resolved

datatype EventData =
    MessageData string
  | PongData bool
  | LogData string string
  | TitleData string
  | StepData nat nat Action
  | SuccessData bool
  | ResolvedData string ApprovalStatus

record StreamEvent =
  e_type :: StreamEventType
  e_sessionId :: string
  e_taskId :: "string option"
  e_timestamp :: nat
  e_data :: EventData

datatype ReadyState = CONNECTING | OPEN | CLOSING | CLOSED

record WebSocket =
  readyState :: ReadyState
  outbox :: "StreamEvent list"

record WebSocketClient =
  ws :: nat
  c_sessionId :: string
  userId :: "string option"

record StreamingService =
  clients :: "string \<rightharpoonup> WebSocketClient list"
  sockets :: "nat \<Rightarrow> WebSocket"

definition ws_send :: "(nat \<Rightarrow> WebSocket) \<Rightarrow> nat \<Rightarrow> StreamEvent \<Rightarrow> (nat \<Rightarrow> WebSocket)" where
  "ws_send h k m = h(k := (h k)\<lparr>outbox := outbox (h k) @ [m]\<rparr>)"

text \<open>\<open>this.clients.get(sessionId) || []\<close>\<close>

definition clients_get :: "StreamingService \<Rightarrow> string \<Rightarrow> WebSocketClient list" where
  "clients_get st sid = (case clients st sid of None \<Rightarrow> [] | Some cs \<Rightarrow> cs)"

definition addClient :: "StreamingService \<Rightarrow> string \<Rightarrow> WebSocketClient \<Rightarrow> StreamingService" where
  "addClient st sid client = st\<lparr>clients := (clients st)(sid \<mapsto> clients_get st sid @ [client])\<rparr>"

definition removeClient :: "StreamingService \<Rightarrow> string \<Rightarrow> WebSocketClient \<Rightarrow> StreamingService" where
  "removeClient st sid client =
     (let filtered = filter (\<lambda>c. ws c \<noteq> ws client) (clients_get st sid)
      in if length filtered > 0 then st\<lparr>clients := (clients st)(sid \<mapsto> filtered)\<rparr>
         else st\<lparr>clients := (clients st)(sid := None)\<rparr>)"

definition sendToClient :: "StreamingService \<Rightarrow> WebSocketClient \<Rightarrow> StreamEvent \<Rightarrow> StreamingService" where
  "sendToClient st client event =
     (if readyState (sockets st (ws client)) = OPEN
      then st\<lparr>sockets := ws_send (sockets st) (ws client) event\<rparr>
      else st)"

text \<open>The body of the loop of \<open>broadcast\<close>, on the heap of sockets.\<close>

definition deliver :: "StreamEvent \<Rightarrow> WebSocketClient \<Rightarrow> (nat \<Rightarrow> WebSocket) \<Rightarrow> (nat \<Rightarrow> WebSocket)" where
  "deliver event client h =
     (if readyState (h (ws client)) = OPEN then ws_send h (ws client) event else h)"

definition broadcast :: "StreamingService \<Rightarrow> string \<Rightarrow> StreamEvent \<Rightarrow> StreamingService" where
  "broadcast st sid event = st\<lparr>sockets := fold (deliver event) (clients_get st sid) (sockets st)\<rparr>"

definition sendLogLine ::
  "StreamingService \<Rightarrow> string \<Rightarrow> string option \<Rightarrow> string \<Rightarrow> string \<Rightarrow> nat \<Rightarrow> StreamingService" where
  "sendLogLine st sid taskId message level now =
     broadcast st sid \<lparr> e_type = log_line, e_sessionId = sid,
       e_taskId = (case taskId of None \<Rightarrow> None | Some k \<Rightarrow> if k = [] then None else Some k),
       e_timestamp = now, e_data = LogData message level \<rparr>"

definition sendTaskStart ::
  "StreamingService \<Rightarrow> string \<Rightarrow> string \<Rightarrow> string \<Rightarrow> nat \<Rightarrow> StreamingService" where
  "sendTaskStart st sid taskId taskTitle now =
     broadcast st sid \<lparr> e_type = task_start, e_sessionId = sid, e_taskId = Some taskId,
       e_timestamp = now, e_data = TitleData taskTitle \<rparr>"

definition sendTaskStep ::
  "StreamingService \<Rightarrow> string \<Rightarrow> string \<Rightarrow> nat \<Rightarrow> nat \<Rightarrow> Action \<Rightarrow> nat \<Rightarrow> StreamingService" where
  "sendTaskStep st sid taskId stepIndex nSteps act now =
     broadcast st sid \<lparr> e_type = task_step, e_sessionId = sid, e_taskId = Some taskId,
       e_timestamp = now, e_data = StepData stepIndex nSteps act \<rparr>"

definition sendTaskComplete ::
  "StreamingService \<Rightarrow> string \<Rightarrow> string \<Rightarrow> bool \<Rightarrow> nat \<Rightarrow> StreamingService" where
  "sendTaskComplete st sid taskId success now =
     broadcast st sid \<lparr> e_type = task_complete, e_sessionId = sid, e_taskId = Some taskId,
       e_timestamp = now, e_data = SuccessData success \<rparr>"

definition sendApprovalResolved ::
  "StreamingService \<Rightarrow> string \<Rightarrow> string \<Rightarrow> ApprovalStatus \<Rightarrow> nat \<Rightarrow> StreamingService" where
  "sendApprovalResolved st sid approvalId status now =
     broadcast st sid \<lparr> e_type = approval_resolved, e_sessionId = sid, e_taskId = None,
       e_timestamp = now, e_data = ResolvedData approvalId status \<rparr>"

text \<open>
  The handlers the service installs on a connection.  \<open>on_connection\<close> receives the new
  socket and the two query parameters of the URL (an absent or empty \<open>sessionId\<close> reads
  as \<open>"default"\<close>); \<open>on_close\<close> and \<open>on_error\<close> are the socket's \<open>close\<close> and
  \<open>error\<close> handlers, closed over the client and its session.
\<close>

definition session_of_url :: "string option \<Rightarrow> string" where
  "session_of_url sidParam =
     (case sidParam of None \<Rightarrow> ''default'' | Some s \<Rightarrow> if s = [] then ''default'' else s)"

definition on_connection ::
  "StreamingService \<Rightarrow> nat \<Rightarrow> string option \<Rightarrow> string option \<Rightarrow> nat \<Rightarrow> StreamingService" where
  "on_connection st sock sidParam uidParam now =
     (let sessionId = session_of_url sidParam;
          uid = (case uidParam of None \<Rightarrow> None | Some u \<Rightarrow> if u = [] then None else Some u);
          client = \<lparr> ws = sock, c_sessionId = sessionId, userId = uid \<rparr>;
          st1 = addClient st sessionId client
      in sendToClient st1 client
           \<lparr> e_type = session_start, e_sessionId = sessionId, e_taskId = None,
             e_timestamp = now, e_data = MessageData ''Connected to streaming service'' \<rparr>)"

definition on_close :: "StreamingService \<Rightarrow> WebSocketClient \<Rightarrow> StreamingService" where
  "on_close st client = removeClient st (c_sessionId client) client"

definition on_error :: "StreamingService \<Rightarrow> WebSocketClient \<Rightarrow> StreamingService" where
  "on_error st client = removeClient st (c_sessionId client) client"

datatype ClientMessage = subscribe_task | ping | other_message

fun handleClientMessage ::
  "StreamingService \<Rightarrow> WebSocketClient \<Rightarrow> ClientMessage \<Rightarrow> nat \<Rightarrow> StreamingService" where
  "handleClientMessage st client subscribe_task now = st"
| "handleClientMessage st client ping now =
     sendToClient st client
       \<lparr> e_type = session_start, e_sessionId = c_sessionId client, e_taskId = None,
         e_timestamp = now, e_data = PongData True \<rparr>"
| "handleClientMessage st client other_message now = st"

text \<open>
  What happens on the sockets: a connection arrives, a socket closes, fails or delivers a
  message from its client, or changes its \<open>readyState\<close> on its own.
\<close>

datatype SocketEvent =
    Connection nat "string option" "string option"
  | SocketClose WebSocketClient
  | SocketError WebSocketClient
  | SocketMessage WebSocketClient ClientMessage
  | SocketState nat ReadyState

fun socket_event :: "StreamingService \<Rightarrow> SocketEvent \<Rightarrow> nat \<Rightarrow> StreamingService" where
  "socket_event st (Connection sock sidParam uidParam) now =
     on_connection st sock sidParam uidParam now"
| "socket_event st (SocketClose client) now = on_close st client"
| "socket_event st (SocketError client) now = on_error st client"
| "socket_event st (SocketMessage client m) now = handleClientMessage st client m now"
| "socket_event st (SocketState k rs) now =
     st\<lparr>sockets := (sockets st)(k := (sockets st k)\<lparr>readyState := rs\<rparr>)\<rparr>"

section \<open>The routes (server/routes.ts)\<close>

text \<open>
  A handler takes the state of the server, the request and the clock, and returns the
  response with the new state.  A response is the JSON body of a success or the status of
  a failure (\<open>400\<close>, \<open>404\<close>, \<open>500\<close>).  A route function is its handler taken from the
  request to the response with no step of another request in between.  The handlers of
  the source are \<open>async\<close>: they give way at every \<open>await\<close>, and the section on the runs
  of the server takes them step by step.
\<close>

record World =
  db :: Database
  streaming :: StreamingService

definition create_session_route ::
  "World \<Rightarrow> InsertSession \<Rightarrow> string \<Rightarrow> nat \<Rightarrow> (HttpError + Session) \<times> World" where
  "create_session_route w ins newId now =
     (case createSession (db w) ins newId now of
        Inl e \<Rightarrow> (Inl e, w)
      | Inr (d1, session) \<Rightarrow> (Inr session, w\<lparr>db := d1\<rparr>))"

definition patch_session_route ::
  "World \<Rightarrow> string \<Rightarrow> SessionField list \<Rightarrow> nat \<Rightarrow> (HttpError + Session) \<times> World" where
  "patch_session_route w sid updates now =
     (case updateSession (db w) sid updates now of
        (d1, None) \<Rightarrow> (Inl (NotFound ''Session not found''), w\<lparr>db := d1\<rparr>)
      | (d1, Some session) \<Rightarrow> (Inr session, w\<lparr>db := d1\<rparr>))"

text \<open>\<open>POST /api/sessions/:id/stop\<close>\<close>

definition cancel_if_running :: "nat \<Rightarrow> Task \<Rightarrow> Database \<Rightarrow> Database" where
  "cancel_if_running now task d =
     (if t_status task = Running then fst (updateTask d (t_id task) [SetStatus Cancelled] now)
      else d)"

definition stop_route :: "World \<Rightarrow> string \<Rightarrow> nat \<Rightarrow> (HttpError + Session) \<times> World" where
  "stop_route w sid now =
     (case updateSession (db w) sid [SetSessionStatus Idle] now of
        (d1, None) \<Rightarrow> (Inl (NotFound ''Session not found''), w\<lparr>db := d1\<rparr>)
      | (d1, Some session) \<Rightarrow>
          let d2 = fold (cancel_if_running now) (getTasksBySession d1 sid) d1;
              st = sendLogLine (streaming w) sid None
                     ''Emergency stop triggered - all processes terminated'' ''warn'' now
          in (Inr session, \<lparr> db = d2, streaming = st \<rparr>))"

text \<open>\<open>POST /api/sessions/:sessionId/messages\<close>: the request's \<open>content\<close>, and the three
  identifiers the inserts draw.\<close>

definition mock_plan :: "ActionStep list" where
  "mock_plan =
     [ \<lparr> action = check_tool, target = Some ''git'', args = None,
         step_description = Some ''Check if git is available'' \<rparr>,
       \<lparr> action = shell_exec, target = Some ''echo'',
         args = Some [(''command'', ''echo '' @ [CHR 0x27] @ ''Task executed'' @ [CHR 0x27])],
         step_description = Some ''Execute command'' \<rparr> ]"

definition user_message :: "string \<Rightarrow> string \<Rightarrow> InsertMessage" where
  "user_message sid c = \<lparr> im_sessionId = sid, im_role = ''user'', im_content = c \<rparr>"

definition received_line :: "string \<Rightarrow> string" where
  "received_line c = ''Received message: '' @ [CHR 0x22] @ take 50 c @ ''...'' @ [CHR 0x22]"

definition agent_message :: "string \<Rightarrow> string \<Rightarrow> InsertMessage" where
  "agent_message sid c =
     \<lparr> im_sessionId = sid, im_role = ''assistant'',
       im_content = ''I'' @ [CHR 0x27] @ ''ll help you with: '' @ [CHR 0x22] @ c
         @ [CHR 0x22] @ ''. Let me create a task plan for this.'' \<rparr>"

definition planned_task :: "string \<Rightarrow> string \<Rightarrow> InsertTask" where
  "planned_task sid c =
     \<lparr> it_sessionId = sid, it_title = take 100 c, it_description = Some c,
       it_status = Some Pending, it_plan = Some mock_plan, it_currentStep = Some 0,
       it_totalSteps = Some 2, it_error = None, it_retryCount = None \<rparr>"

definition send_message_route ::
  "World \<Rightarrow> string \<Rightarrow> string option \<Rightarrow> string \<Rightarrow> string \<Rightarrow> string \<Rightarrow> nat
     \<Rightarrow> (HttpError + (Message \<times> Message \<times> Task)) \<times> World" where
  "send_message_route w sid body mid1 mid2 tid now =
     (case body of
        None \<Rightarrow> (Inl (BadRequest ''Content is required''), w)
      | Some c \<Rightarrow>
          if c = [] then (Inl (BadRequest ''Content is required''), w)
          else
            (case createMessage (db w) (user_message sid c) mid1 now of
               Inl e \<Rightarrow> (Inl e, w)
             | Inr (d1, userMessage) \<Rightarrow>
                 let st1 = sendLogLine (streaming w) sid None (received_line c) ''info'' now
                 in (case createMessage d1 (agent_message sid c) mid2 now of
                       Inl e \<Rightarrow> (Inl e, \<lparr> db = d1, streaming = st1 \<rparr>)
                     | Inr (d2, agentMessage) \<Rightarrow>
                         (case createTask d2 (planned_task sid c) tid now of
                            Inl e \<Rightarrow> (Inl e, \<lparr> db = d2, streaming = st1 \<rparr>)
                          | Inr (d3, task) \<Rightarrow>
                              (Inr (userMessage, agentMessage, task),
                               \<lparr> db = d3, streaming = st1 \<rparr>)))))"

text \<open>
  \<open>POST /api/tasks/:id/run\<close>.  The handler writes to the store once before the loop, once
  in every iteration and once after it; \<open>run_states\<close> lists the state of the server after
  each of these writes, in order, and the handler ends in the last of them.  The response
  is the row the first write returned.
\<close>

definition plan_of :: "Task \<Rightarrow> ActionStep list" where
  "plan_of task = (case plan task of None \<Rightarrow> [] | Some p \<Rightarrow> p)"

definition run_start :: "World \<Rightarrow> Task \<Rightarrow> nat \<Rightarrow> World \<times> Task option" where
  "run_start w task now =
     (case updateTask (db w) (t_id task) [SetStatus Running, SetCurrentStep (Some 0)] now of
        (d1, updatedTask) \<Rightarrow>
          (\<lparr> db = d1,
             streaming = sendTaskStart (streaming w) (t_sessionId task) (t_id task) (title task) now \<rparr>,
           updatedTask))"

definition run_step :: "Task \<Rightarrow> nat \<Rightarrow> nat \<Rightarrow> nat \<Rightarrow> ActionStep \<Rightarrow> World \<Rightarrow> World" where
  "run_step task n now i step w =
     (let st = sendTaskStep (streaming w) (t_sessionId task) (t_id task) i n (action step) now;
          d1 = fst (updateTask (db w) (t_id task) [SetCurrentStep (Some (int i + 1))] now)
      in \<lparr> db = d1, streaming = st \<rparr>)"

fun run_loop :: "Task \<Rightarrow> nat \<Rightarrow> nat \<Rightarrow> nat \<Rightarrow> ActionStep list \<Rightarrow> World \<Rightarrow> World list" where
  "run_loop task n now i [] w = []"
| "run_loop task n now i (step # rest) w =
     (let w' = run_step task n now i step w in w' # run_loop task n now (Suc i) rest w')"

definition run_finish :: "World \<Rightarrow> Task \<Rightarrow> nat \<Rightarrow> World" where
  "run_finish w task now =
     \<lparr> db = fst (updateTask (db w) (t_id task) [SetStatus Completed] now),
       streaming = sendTaskComplete (streaming w) (t_sessionId task) (t_id task) True now \<rparr>"

definition run_states :: "World \<Rightarrow> Task \<Rightarrow> nat \<Rightarrow> World list" where
  "run_states w task now =
     (let w0 = fst (run_start w task now);
          ws = run_loop task (length (plan_of task)) now 0 (plan_of task) w0
      in w0 # ws @ [run_finish (last (w0 # ws)) task now])"

definition run_route :: "World \<Rightarrow> string \<Rightarrow> nat \<Rightarrow> (HttpError + Task option) \<times> World" where
  "run_route w i now =
     (case getTask (db w) i of
        None \<Rightarrow> (Inl (NotFound ''Task not found''), w)
      | Some task \<Rightarrow> (Inr (snd (run_start w task now)), last (run_states w task now)))"

text \<open>\<open>POST /api/tasks/:id/cancel\<close>\<close>

definition cancel_route :: "World \<Rightarrow> string \<Rightarrow> nat \<Rightarrow> (HttpError + Task) \<times> World" where
  "cancel_route w i now =
     (case updateTask (db w) i [SetStatus Cancelled] now of
        (d1, None) \<Rightarrow> (Inl (NotFound ''Task not found''), w\<lparr>db := d1\<rparr>)
      | (d1, Some task) \<Rightarrow>
          (Inr task,
           \<lparr> db = d1,
             streaming = sendLogLine (streaming w) (t_sessionId task) (Some (t_id task))
                           ''Task cancelled by user'' ''warn'' now \<rparr>))"

text \<open>\<open>GET /api/sessions/:sessionId/approvals\<close> and \<open>POST /api/approvals/:id/resolve\<close>;
  the body's \<open>dontAskAgain\<close> is read and never used.\<close>

definition approvals_route :: "World \<Rightarrow> string \<Rightarrow> (HttpError + Approval list) \<times> World" where
  "approvals_route w sid = (Inr (getPendingApprovals (db w) sid), w)"

definition resolve_route ::
  "World \<Rightarrow> string \<Rightarrow> bool \<Rightarrow> bool \<Rightarrow> nat \<Rightarrow> (HttpError + Approval) \<times> World" where
  "resolve_route w i approved dontAskAgain now =
     (let status = (if approved then Approved else Rejected)
      in case resolveApproval (db w) i status now of
           (d1, None) \<Rightarrow> (Inl (NotFound ''Approval not found''), w\<lparr>db := d1\<rparr>)
         | (d1, Some approval) \<Rightarrow>
             (Inr approval,
              \<lparr> db = d1,
                streaming = sendApprovalResolved (streaming w) (a_sessionId approval)
                              (a_id approval) status now \<rparr>))"


section \<open>Runs of the server\<close>

text \<open>
  The requests that change the state modelled here.  The only route that inserts a task is
  the message route; no route inserts an approval.  The route \<open>GET /api/sessions/current\<close>
  inserts its default session through \<open>createSession\<close> as \<open>CreateSession\<close> does; the
  routes for tools, artifacts, repositories and storage providers write to none of the four
  tables.  \<open>handle\<close> is a request handled with no step of another request in between.
\<close>

datatype Request =
    CreateSession InsertSession string
  | PatchSession string "SessionField list"
  | Stop string
  | SendMessage string "string option" string string string
  | Run string
  | Cancel string
  | Resolve string bool bool
  | Socket SocketEvent

fun handle :: "World \<Rightarrow> Request \<Rightarrow> nat \<Rightarrow> World" where
  "handle w (CreateSession ins newId) now = snd (create_session_route w ins newId now)"
| "handle w (PatchSession sid updates) now = snd (patch_session_route w sid updates now)"
| "handle w (Stop sid) now = snd (stop_route w sid now)"
| "handle w (SendMessage sid body mid1 mid2 tid) now =
     snd (send_message_route w sid body mid1 mid2 tid now)"
| "handle w (Run i) now = snd (run_route w i now)"
| "handle w (Cancel i) now = snd (cancel_route w i now)"
| "handle w (Resolve i approved dontAskAgain) now =
     snd (resolve_route w i approved dontAskAgain now)"
| "handle w (Socket ev) now = w\<lparr>streaming := socket_event (streaming w) ev now\<rparr>"

definition init_world :: World where
  "init_world =
     \<lparr> db = \<lparr> sessions = [], tasks = [], messages = [], approvals = [] \<rparr>,
       streaming = \<lparr> clients = Map.empty,
                     sockets = (\<lambda>k. \<lparr> readyState = CONNECTING, outbox = [] \<rparr>) \<rparr> \<rparr>"

text \<open>
  The handlers step by step.  A handler gives way at every \<open>await\<close>, and the source holds
  no lock and tests no status before it writes, so the steps of requests in flight fall in
  any order.  A step is one awaited call of the store, with the broadcasts the handler makes
  next to it (the store and the sockets do not read each other).  \<open>Pending\<close> is what a
  handler that has given way still has to do, with the local variables it holds:
  \<^item> \<open>RunStart task\<close>: the run handler has read \<open>task\<close>; its first write is due;
  \<^item> \<open>RunLoop task i steps\<close>: the loop is at index \<open>i\<close>, with \<open>steps\<close> of the plan left;
    when none is left the write of \<open>completed\<close> is due;
  \<^item> \<open>StopRead sid\<close>: the stop handler has set the session idle; the read of its tasks is due;
  \<^item> \<open>StopLoop sid rest\<close>: the loop over the tasks read, with \<open>rest\<close> left; when none is
    left the log line is due, and the handler returns (a turn of the loop on a task that
    was not running when read awaits nothing: it is a step that changes nothing);
  \<^item> \<open>MessageReply\<close>, \<open>MessageTask\<close>: the message handler before its second and third
    insert.
  \<open>start\<close> is the first step of a request, \<open>advance\<close> the next step of a handler in
  flight; each returns what is left of the handler, if anything.  Every step reads the clock
  for itself.
\<close>

datatype Pending =
    RunStart Task
  | RunLoop Task nat "ActionStep list"
  | StopRead string
  | StopLoop string "Task list"
  | MessageReply string string string string
  | MessageTask string string string

fun start :: "World \<Rightarrow> Request \<Rightarrow> nat \<Rightarrow> World \<times> Pending option" where
  "start w (CreateSession ins newId) now = (snd (create_session_route w ins newId now), None)"
| "start w (PatchSession sid updates) now = (snd (patch_session_route w sid updates now), None)"
| "start w (Stop sid) now =
     (case updateSession (db w) sid [SetSessionStatus Idle] now of
        (d1, None) \<Rightarrow> (w\<lparr>db := d1\<rparr>, None)
      | (d1, Some session) \<Rightarrow> (w\<lparr>db := d1\<rparr>, Some (StopRead sid)))"
| "start w (SendMessage sid body mid1 mid2 tid) now =
     (case body of
        None \<Rightarrow> (w, None)
      | Some c \<Rightarrow>
          if c = [] then (w, None)
          else
            (case createMessage (db w) (user_message sid c) mid1 now of
               Inl e \<Rightarrow> (w, None)
             | Inr (d1, userMessage) \<Rightarrow>
                 (\<lparr> db = d1,
                    streaming = sendLogLine (streaming w) sid None (received_line c) ''info'' now \<rparr>,
                  Some (MessageReply sid c mid2 tid))))"
| "start w (Run i) now =
     (case getTask (db w) i of
        None \<Rightarrow> (w, None)
      | Some task \<Rightarrow> (w, Some (RunStart task)))"
| "start w (Cancel i) now = (snd (cancel_route w i now), None)"
| "start w (Resolve i approved dontAskAgain) now =
     (snd (resolve_route w i approved dontAskAgain now), None)"
| "start w (Socket ev) now = (w\<lparr>streaming := socket_event (streaming w) ev now\<rparr>, None)"

fun advance :: "World \<Rightarrow> Pending \<Rightarrow> nat \<Rightarrow> World \<times> Pending option" where
  "advance w (RunStart task) now =
     (fst (run_start w task now), Some (RunLoop task 0 (plan_of task)))"
| "advance w (RunLoop task i (step # rest)) now =
     (run_step task (length (plan_of task)) now i step w, Some (RunLoop task (Suc i) rest))"
| "advance w (RunLoop task i []) now = (run_finish w task now, None)"
| "advance w (StopRead sid) now = (w, Some (StopLoop sid (getTasksBySession (db w) sid)))"
| "advance w (StopLoop sid (task # rest)) now =
     (w\<lparr>db := cancel_if_running now task (db w)\<rparr>, Some (StopLoop sid rest))"
| "advance w (StopLoop sid []) now =
     (w\<lparr>streaming := sendLogLine (streaming w) sid None
          ''Emergency stop triggered - all processes terminated'' ''warn'' now\<rparr>, None)"
| "advance w (MessageReply sid c mid2 tid) now =
     (case createMessage (db w) (agent_message sid c) mid2 now of
        Inl e \<Rightarrow> (w, None)
      | Inr (d2, agentMessage) \<Rightarrow> (w\<lparr>db := d2\<rparr>, Some (MessageTask sid c tid)))"
| "advance w (MessageTask sid c tid) now =
     (case createTask (db w) (planned_task sid c) tid now of
        Inl e \<Rightarrow> (w, None)
      | Inr (d3, task) \<Rightarrow> (w\<lparr>db := d3\<rparr>, None))"

text \<open>
  \<open>reachable w ps\<close>: the server can be in state \<open>w\<close> with the handlers \<open>ps\<close> in flight.
  A request starts at any moment; any handler in flight takes the next step.
\<close>

inductive reachable :: "World \<Rightarrow> Pending list \<Rightarrow> bool" where
  reachable_init: "reachable init_world []"
| reachable_start: "reachable w ps \<Longrightarrow> start w r now = (w', None) \<Longrightarrow> reachable w' ps"
| reachable_given_way:
    "reachable w ps \<Longrightarrow> start w r now = (w', Some p) \<Longrightarrow> reachable w' (ps @ [p])"
| reachable_advance:
    "reachable w (ps @ p # qs) \<Longrightarrow> advance w p now = (w', Some p') \<Longrightarrow>
     reachable w' (ps @ p' # qs)"
| reachable_return:
    "reachable w (ps @ p # qs) \<Longrightarrow> advance w p now = (w', None) \<Longrightarrow> reachable w' (ps @ qs)"

text \<open>
  \<open>alone w p now vs\<close>: the handler \<open>p\<close> in flight takes all its steps from \<open>w\<close> on with
  nothing in between; \<open>vs\<close> are the states after each of them, the last the state in which
  it returns.
\<close>

inductive alone :: "World \<Rightarrow> Pending \<Rightarrow> nat \<Rightarrow> World list \<Rightarrow> bool" where
  alone_return: "advance w p now = (w', None) \<Longrightarrow> alone w p now [w']"
| alone_advance:
    "advance w p now = (w', Some p') \<Longrightarrow> alone w' p' now vs \<Longrightarrow> alone w p now (w' # vs)"

text \<open>
  What every step keeps: a task row is as the message route planned it, up to its status
  and its step counter within the plan; a run in flight holds that plan and is within it.
\<close>

definition as_planned :: "Task \<Rightarrow> bool" where
  "as_planned t \<longleftrightarrow>
     plan t = Some mock_plan \<and> totalSteps t = Some 2
     \<and> (\<exists>c. currentStep t = Some c \<and> 0 \<le> c \<and> c \<le> 2)"

fun in_plan :: "Pending \<Rightarrow> bool" where
  "in_plan (RunStart task) = (plan task = Some mock_plan)"
| "in_plan (RunLoop task i steps) = (plan task = Some mock_plan \<and> i \<le> 2 \<and> steps = drop i mock_plan)"
| "in_plan (StopRead sid) = True"
| "in_plan (StopLoop sid rest) = True"
| "in_plan (MessageReply sid c mid2 tid) = True"
| "in_plan (MessageTask sid c tid) = True"

section \<open>What an observer is sent\<close>

text \<open>
  \<open>received st k\<close> is everything handed to socket \<open>k\<close> so far; \<open>subscriptions st sid k\<close>
  counts the clients registered under session \<open>sid\<close> whose socket is \<open>k\<close> (one per
  connection); \<open>publish_all\<close> is a run of calls of \<open>broadcast\<close>, in order.
\<close>

definition received :: "StreamingService \<Rightarrow> nat \<Rightarrow> StreamEvent list" where
  "received st k = outbox (sockets st k)"

definition subscriptions :: "StreamingService \<Rightarrow> string \<Rightarrow> nat \<Rightarrow> nat" where
  "subscriptions st sid k = length (filter (\<lambda>c. ws c = k) (clients_get st sid))"

fun publish_all :: "StreamingService \<Rightarrow> (string \<times> StreamEvent) list \<Rightarrow> StreamingService" where
  "publish_all st [] = st"
| "publish_all st ((sid, event) # rest) = publish_all (broadcast st sid event) rest"

text \<open>
  A run of the streaming service: publishes and socket events, in order.  \<open>purge sid\<close>
  drops from a run the publishes to sessions other than \<open>sid\<close>.  \<open>joins_only sid k\<close>
  holds of a step unless it is a connection of socket \<open>k\<close> to a session other than
  \<open>sid\<close>.  Two states are the same to socket \<open>k\<close> when they agree on the registry, on
  the \<open>readyState\<close> of every socket and on what \<open>k\<close> was sent.
\<close>

datatype BusOp = Publish string StreamEvent | Observer SocketEvent nat

fun bus_step :: "StreamingService \<Rightarrow> BusOp \<Rightarrow> StreamingService" where
  "bus_step st (Publish sid event) = broadcast st sid event"
| "bus_step st (Observer ev now) = socket_event st ev now"

fun bus_run :: "StreamingService \<Rightarrow> BusOp list \<Rightarrow> StreamingService" where
  "bus_run st [] = st"
| "bus_run st (x # rest) = bus_run (bus_step st x) rest"

fun for_session :: "string \<Rightarrow> BusOp \<Rightarrow> bool" where
  "for_session sid (Publish s event) = (s = sid)"
| "for_session sid (Observer ev now) = True"

definition purge :: "string \<Rightarrow> BusOp list \<Rightarrow> BusOp list" where
  "purge sid ops = filter (for_session sid) ops"

fun joins_only :: "string \<Rightarrow> nat \<Rightarrow> BusOp \<Rightarrow> bool" where
  "joins_only sid k (Observer (Connection sock sidParam uidParam) now) =
     (sock = k \<longrightarrow> session_of_url sidParam = sid)"
| "joins_only sid k x = True"

definition same_view :: "nat \<Rightarrow> StreamingService \<Rightarrow> StreamingService \<Rightarrow> bool" where
  "same_view k st st' \<longleftrightarrow>
     clients st = clients st'
     \<and> (\<forall>j. readyState (sockets st j) = readyState (sockets st' j))
     \<and> outbox (sockets st k) = outbox (sockets st' k)"

section \<open>Example states\<close>

text \<open>
  A session \<open>S\<close> with both mode flags off, a task \<open>T\<close> of that session, and a streaming
  service with three connections: sockets \<open>0\<close> and \<open>1\<close> registered under \<open>S\<close>, socket
  \<open>2\<close> under \<open>S2\<close>; socket \<open>1\<close> is closing, the others are open.
\<close>

definition ex_session :: Session where
  "ex_session =
     \<lparr> s_id = ''S'', s_userId = None, s_name = ''Development Session'', s_status = SessionRunning,
       dryRunMode = False, allowDestructive = False, workspaceDir = None,
       s_createdAt = 0, s_updatedAt = 0 \<rparr>"

definition ex_task :: "TaskStatus \<Rightarrow> ActionStep list \<Rightarrow> int \<Rightarrow> Task" where
  "ex_task st p cs =
     \<lparr> t_id = ''T'', t_sessionId = ''S'', title = ''demo'', description = None, t_status = st,
       plan = Some p, currentStep = Some cs, totalSteps = Some (int (length p)), error = None,
       retryCount = Some 0, t_createdAt = 0, t_updatedAt = 0 \<rparr>"

definition ex_approval :: "string \<Rightarrow> nat \<Rightarrow> ApprovalStatus \<Rightarrow> Approval" where
  "ex_approval i n st =
     \<lparr> a_id = i, a_sessionId = ''S'', a_taskId = Some ''T'', a_action = ''delete_file'',
       details = None, a_status = st, a_createdAt = n, resolvedAt = None \<rparr>"

definition ex_client :: "nat \<Rightarrow> string \<Rightarrow> WebSocketClient" where
  "ex_client k sid = \<lparr> ws = k, c_sessionId = sid, userId = None \<rparr>"

definition ex_streaming :: StreamingService where
  "ex_streaming =
     \<lparr> clients = [''S'' \<mapsto> [ex_client 0 ''S'', ex_client 1 ''S''], ''S2'' \<mapsto> [ex_client 2 ''S2'']],
       sockets = (\<lambda>k. \<lparr> readyState = (if k = 1 then CLOSING else OPEN), outbox = [] \<rparr>) \<rparr>"

definition ex_world :: "Task list \<Rightarrow> Approval list \<Rightarrow> World" where
  "ex_world ts as =
     \<lparr> db = \<lparr> sessions = [ex_session], tasks = ts, messages = [], approvals = as \<rparr>,
       streaming = ex_streaming \<rparr>"

definition ex_event :: "nat \<Rightarrow> StreamEvent" where
  "ex_event n =
     \<lparr> e_type = log_line, e_sessionId = ''S'', e_taskId = None, e_timestamp = n,
       e_data = LogData ''hello'' ''info'' \<rparr>"


text \<open>The state after a session \<open>S\<close> was created at time \<open>1\<close> and the message \<open>hi\<close> was
  posted to it at time \<open>2\<close>, and the task that message created.\<close>

definition ex_reached :: World where
  "ex_reached =
     handle
       (handle init_world
          (CreateSession \<lparr> is_userId = None, is_name = ''Development Session'', is_status = None,
             is_dryRunMode = Some False, is_allowDestructive = None, is_workspaceDir = None \<rparr> ''S'') 1)
       (SendMessage ''S'' (Some ''hi'') ''m1'' ''m2'' ''T'') 2"

definition ex_created :: Task where
  "ex_created =
     \<lparr> t_id = ''T'', t_sessionId = ''S'', title = ''hi'', description = Some ''hi'',
       t_status = Pending, plan = Some mock_plan, currentStep = Some 0, totalSteps = Some 2,
       error = None, retryCount = Some 0, t_createdAt = 2, t_updatedAt = 2 \<rparr>"

text \<open>
  Overlapping requests, from \<open>ex_reached\<close>.  \<open>ex_running\<close>: a run of \<open>T\<close> has read the
  task and made its first two writes, so \<open>T\<close> is running at step \<open>1\<close>.  \<open>ex_rerun\<close>: a
  second run of \<open>T\<close>, which read the row \<open>ex_snapshot\<close> in \<open>ex_running\<close>, makes its first
  write.  \<open>ex_stop_race\<close>: a stop of \<open>S\<close> sets the session idle and reads the tasks of
  \<open>S\<close> while \<open>T\<close> is pending; a run of \<open>T\<close> makes its first write; the stop loops over
  what it read, sends its log line and returns.
\<close>

definition ex_running :: World where
  "ex_running =
     fst (advance (fst (advance ex_reached (RunStart ex_created) 3))
            (RunLoop ex_created 0 mock_plan) 3)"

definition ex_snapshot :: Task where
  "ex_snapshot = ex_created\<lparr>t_status := Running, currentStep := Some 1, t_updatedAt := 3\<rparr>"

definition ex_rerun :: World where
  "ex_rerun = fst (advance ex_running (RunStart ex_snapshot) 4)"

definition ex_stop_race :: World where
  "ex_stop_race =
     fst (advance
       (fst (advance
         (fst (advance
           (fst (advance (fst (start ex_reached (Stop ''S'') 5)) (StopRead ''S'') 5))
           (RunStart ex_created) 6))
         (StopLoop ''S'' [ex_created]) 7))
       (StopLoop ''S'' []) 7)"

section \<open>Properties of the store\<close>

lemma find_map_same:
  assumes "\<And>x. key (f x) = key x"
  shows "find (\<lambda>x. key x = i) (map (\<lambda>x. if key x = i then f x else x) xs)
         = map_option f (find (\<lambda>x. key x = i) xs)"
  using assms by (induction xs) simp_all

lemma find_map_other:
  assumes "\<And>x. key (f x) = key x" and "j \<noteq> i"
  shows "find (\<lambda>x. key x = j) (map (\<lambda>x. if key x = i then f x else x) xs)
         = find (\<lambda>x. key x = j) xs"
  using assms by (induction xs) simp_all

lemma map_no_match:
  assumes "find (\<lambda>x. key x = i) xs = None"
  shows "map (\<lambda>x. if key x = i then f x else x) xs = xs"
  using assms by (induction xs) (simp_all split: if_splits)

lemma setTaskField_id [simp]: "t_id (setTaskField u t) = t_id t"
  by (cases u) simp_all

lemma fold_setTaskField_id [simp]: "t_id (fold setTaskField us t) = t_id t"
  by (induction us arbitrary: t) simp_all

lemma setTaskField_sessionId [simp]: "t_sessionId (setTaskField u t) = t_sessionId t"
  by (cases u) simp_all

lemma fold_setTaskField_sessionId [simp]: "t_sessionId (fold setTaskField us t) = t_sessionId t"
  by (induction us arbitrary: t) simp_all

lemma getTask_updateTask:
  "getTask (fst (updateTask d i us now)) j =
     (if j = i then map_option (\<lambda>t. (fold setTaskField us t)\<lparr>t_updatedAt := now\<rparr>) (getTask d i)
      else getTask d j)"
  by (simp add: getTask_def updateTask_def Let_def
      find_map_same [where key = t_id] find_map_other [where key = t_id])

lemma snd_updateTask:
  "snd (updateTask d i us now) =
     map_option (\<lambda>t. (fold setTaskField us t)\<lparr>t_updatedAt := now\<rparr>) (getTask d i)"
  by (simp add: getTask_def updateTask_def Let_def find_map_same [where key = t_id])

lemma updateTask_missing:
  "getTask d i = None \<Longrightarrow> updateTask d i us now = (d, None)"
  by (simp add: getTask_def updateTask_def Let_def map_no_match [where key = t_id]
      find_map_same [where key = t_id])

lemma updateTask_other_tables [simp]:
  "sessions (fst (updateTask d i us now)) = sessions d"
  "approvals (fst (updateTask d i us now)) = approvals d"
  "messages (fst (updateTask d i us now)) = messages d"
  by (simp_all add: updateTask_def Let_def)

section \<open>Cancelling a task\<close>

text \<open>
  C10.  The cancel route sets the status of an existing task to \<open>cancelled\<close> whatever its
  status was: the row returned, and stored, is the old row with \<open>status\<close> set to
  \<open>cancelled\<close> (and \<open>updatedAt\<close> to the clock), so its plan, \<open>currentStep\<close>,
  \<open>totalSteps\<close>, \<open>error\<close> and \<open>retryCount\<close> are unchanged; the tasks of other ids are as
  they were; an unknown id is answered with \<open>404\<close> and nothing changes.
\<close>

theorem cancel_any_status:
  "(\<forall>task. getTask (db w) i = Some task \<longrightarrow>
      fst (cancel_route w i now) = Inr (task\<lparr>t_status := Cancelled, t_updatedAt := now\<rparr>) \<and>
      getTask (db (snd (cancel_route w i now))) i
        = Some (task\<lparr>t_status := Cancelled, t_updatedAt := now\<rparr>))
   \<and> (\<forall>j. j \<noteq> i \<longrightarrow> getTask (db (snd (cancel_route w i now))) j = getTask (db w) j)
   \<and> (getTask (db w) i = None \<longrightarrow>
        cancel_route w i now = (Inl (NotFound ''Task not found''), w))"
proof (intro conjI allI impI)
  fix task assume a: "getTask (db w) i = Some task"
  obtain d1 r where u: "updateTask (db w) i [SetStatus Cancelled] now = (d1, r)"
    by (cases "updateTask (db w) i [SetStatus Cancelled] now")
  have r: "r = Some (task\<lparr>t_status := Cancelled, t_updatedAt := now\<rparr>)"
    using snd_updateTask [of "db w" i "[SetStatus Cancelled]" now] a u by simp
  have d1: "getTask d1 i = Some (task\<lparr>t_status := Cancelled, t_updatedAt := now\<rparr>)"
    using getTask_updateTask [of "db w" i "[SetStatus Cancelled]" now i] a u by simp
  show "fst (cancel_route w i now) = Inr (task\<lparr>t_status := Cancelled, t_updatedAt := now\<rparr>)"
    by (simp add: cancel_route_def u r)
  show "getTask (db (snd (cancel_route w i now))) i
        = Some (task\<lparr>t_status := Cancelled, t_updatedAt := now\<rparr>)"
    by (simp add: cancel_route_def u r d1)
next
  fix j assume "j \<noteq> i"
  then have "getTask (fst (updateTask (db w) i [SetStatus Cancelled] now)) j = getTask (db w) j"
    by (simp add: getTask_updateTask)
  then show "getTask (db (snd (cancel_route w i now))) j = getTask (db w) j"
    by (cases "updateTask (db w) i [SetStatus Cancelled] now")
       (auto simp: cancel_route_def split: option.splits)
next
  assume "getTask (db w) i = None"
  then show "cancel_route w i now = (Inl (NotFound ''Task not found''), w)"
    by (simp add: cancel_route_def updateTask_missing)
qed

text \<open>At a completed task, and at an id no task has.\<close>

theorem cancel_any_status_witness:
  "getTask (db (ex_world [ex_task Completed mock_plan 2] [])) ''T''
     = Some (ex_task Completed mock_plan 2)
   \<and> fst (cancel_route (ex_world [ex_task Completed mock_plan 2] []) ''T'' 7)
     = Inr ((ex_task Completed mock_plan 2)\<lparr>t_status := Cancelled, t_updatedAt := 7\<rparr>)
   \<and> getTask (db (ex_world [ex_task Completed mock_plan 2] [])) ''U'' = None
   \<and> cancel_route (ex_world [ex_task Completed mock_plan 2] []) ''U'' 7
     = (Inl (NotFound ''Task not found''), ex_world [ex_task Completed mock_plan 2] [])"
proof -
  let ?w = "ex_world [ex_task Completed mock_plan 2] []"
  have h1: "getTask (db ?w) ''T'' = Some (ex_task Completed mock_plan 2)"
    by (simp add: getTask_def ex_world_def ex_task_def)
  have h2: "getTask (db ?w) ''U'' = None"
    by (simp add: getTask_def ex_world_def ex_task_def)
  from cancel_any_status [of ?w "''T''" 7] h1
  have c1: "fst (cancel_route ?w ''T'' 7)
     = Inr ((ex_task Completed mock_plan 2)\<lparr>t_status := Cancelled, t_updatedAt := 7\<rparr>)"
    by blast
  from cancel_any_status [of ?w "''U''" 7] h2
  have c2: "cancel_route ?w ''U'' 7 = (Inl (NotFound ''Task not found''), ?w)"
    by blast
  from h1 c1 h2 c2 show ?thesis by blast
qed

section \<open>Properties of the streaming service\<close>

lemma deliver_readyState [simp]: "readyState (deliver e c h k) = readyState (h k)"
  by (simp add: deliver_def ws_send_def)

lemma fold_deliver_readyState [simp]:
  "readyState (fold (deliver e) cs h k) = readyState (h k)"
  by (induction cs arbitrary: h) simp_all

lemma deliver_outbox:
  "outbox (deliver e c h k) =
     outbox (h k) @ (if ws c = k \<and> readyState (h k) = OPEN then [e] else [])"
  by (simp add: deliver_def ws_send_def)

lemma fold_deliver_outbox:
  "outbox (fold (deliver e) cs h k) =
     outbox (h k) @ (if readyState (h k) = OPEN
                     then replicate (length (filter (\<lambda>c. ws c = k) cs)) e else [])"
proof (induction cs arbitrary: h)
  case Nil
  then show ?case by simp
next
  case (Cons c cs)
  show ?case
    by (simp add: Cons.IH deliver_outbox replicate_app_Cons_same)
qed

lemma broadcast_clients [simp]: "clients (broadcast st sid e) = clients st"
  by (simp add: broadcast_def)

lemma broadcast_clients_get [simp]: "clients_get (broadcast st sid e) s = clients_get st s"
  by (simp add: clients_get_def)

lemma broadcast_subscriptions [simp]:
  "subscriptions (broadcast st sid e) s k = subscriptions st s k"
  by (simp add: subscriptions_def)

lemma broadcast_readyState [simp]:
  "readyState (sockets (broadcast st sid e) k) = readyState (sockets st k)"
  by (simp add: broadcast_def)

lemma broadcast_received:
  "received (broadcast st sid e) k =
     received st k @ (if readyState (sockets st k) = OPEN
                      then replicate (subscriptions st sid k) e else [])"
  by (simp add: received_def broadcast_def subscriptions_def fold_deliver_outbox)

lemma publish_all_clients [simp]: "clients (publish_all st evs) = clients st"
  by (induction st evs rule: publish_all.induct) simp_all

lemma publish_all_subscriptions [simp]:
  "subscriptions (publish_all st evs) s k = subscriptions st s k"
  by (simp add: subscriptions_def clients_get_def)

lemma publish_all_readyState [simp]:
  "readyState (sockets (publish_all st evs) k) = readyState (sockets st k)"
  by (induction st evs rule: publish_all.induct) simp_all

lemma publish_all_received:
  "received (publish_all st evs) k =
     received st k @ (if readyState (sockets st k) = OPEN
                      then concat (map (\<lambda>(s, e). replicate (subscriptions st s k) e) evs)
                      else [])"
  by (induction st evs rule: publish_all.induct) (simp_all add: broadcast_received)

lemma removeClient_sockets [simp]: "sockets (removeClient st sid c) = sockets st"
  by (simp add: removeClient_def Let_def)

lemma removeClient_clients_get:
  "clients_get (removeClient st sid c) s =
     (if s = sid then filter (\<lambda>c'. ws c' \<noteq> ws c) (clients_get st sid) else clients_get st s)"
  by (simp add: removeClient_def Let_def clients_get_def)

lemma removeClient_subscriptions:
  "subscriptions (removeClient st sid c) s k =
     (if s = sid \<and> k = ws c then 0 else subscriptions st s k)"
  by (auto simp: subscriptions_def removeClient_clients_get
      intro: arg_cong [where f = length] filter_cong)

lemma removeClient_received [simp]: "received (removeClient st sid c) k = received st k"
  by (simp add: received_def)

lemma subscribed_positive:
  "c \<in> set (clients_get st sid) \<Longrightarrow> 0 < subscriptions st sid (ws c)"
  by (auto simp: subscriptions_def filter_empty_conv)

lemma concat_replicate_none:
  assumes "\<And>s. n s = 0"
  shows "concat (map (\<lambda>(s, e). replicate (n s) e) evs) = []"
  using assms by (induction evs) auto

section \<open>Fan-out\<close>

text \<open>
  C6, as the code has it.  \<open>broadcast(sessionId, event)\<close> hands the event to every client
  registered under that session whose socket is \<open>OPEN\<close>, once per registration, and
  skips, without any error, a registered client whose socket is not open.  Events published
  one after the other reach an open observer in the order published.  With no client
  registered under the session the call changes nothing.  After \<open>removeClient\<close> has
  returned for a client, no later publish to that session hands its socket anything; nor
  does a publish to any other session, when the socket is registered under none.
\<close>

theorem broadcast_fanout:
  "(\<forall>c \<in> set (clients_get st sid).
      0 < subscriptions st sid (ws c) \<and>
      received (broadcast st sid e) (ws c) =
        received st (ws c) @ (if readyState (sockets st (ws c)) = OPEN
                              then replicate (subscriptions st sid (ws c)) e else []) \<and>
      received (publish_all st (map (Pair sid) es)) (ws c) =
        received st (ws c) @ (if readyState (sockets st (ws c)) = OPEN
                              then concat (map (replicate (subscriptions st sid (ws c))) es)
                              else []))
   \<and> (clients_get st sid = [] \<longrightarrow> broadcast st sid e = st)
   \<and> received (publish_all (removeClient st sid c0) (map (Pair sid) es)) (ws c0)
       = received st (ws c0)
   \<and> ((\<forall>s. s \<noteq> sid \<longrightarrow> subscriptions st s (ws c0) = 0) \<longrightarrow>
        received (publish_all (removeClient st sid c0) evs) (ws c0) = received st (ws c0))"
proof (intro conjI ballI impI)
  fix c :: WebSocketClient
  assume "c \<in> set (clients_get st sid)"
  then show "0 < subscriptions st sid (ws c)"
    by (rule subscribed_positive)
  show "received (broadcast st sid e) (ws c) =
        received st (ws c) @ (if readyState (sockets st (ws c)) = OPEN
                              then replicate (subscriptions st sid (ws c)) e else [])"
    by (rule broadcast_received)
  show "received (publish_all st (map (Pair sid) es)) (ws c) =
        received st (ws c) @ (if readyState (sockets st (ws c)) = OPEN
                              then concat (map (replicate (subscriptions st sid (ws c))) es)
                              else [])"
    by (simp add: publish_all_received comp_def)
next
  assume "clients_get st sid = []"
  then show "broadcast st sid e = st" by (simp add: broadcast_def)
next
  have "concat (map (\<lambda>x. []) es) = ([] :: StreamEvent list)"
    by (induction es) simp_all
  then show "received (publish_all (removeClient st sid c0) (map (Pair sid) es)) (ws c0)
       = received st (ws c0)"
    by (simp add: publish_all_received removeClient_subscriptions comp_def)
next
  assume a: "\<forall>s. s \<noteq> sid \<longrightarrow> subscriptions st s (ws c0) = 0"
  have "\<And>s. subscriptions (removeClient st sid c0) s (ws c0) = 0"
    using a by (simp add: removeClient_subscriptions)
  then show "received (publish_all (removeClient st sid c0) evs) (ws c0) = received st (ws c0)"
    by (simp add: publish_all_received concat_replicate_none)
qed

text \<open>The example service: what each of its sockets is registered for.\<close>

lemma ex_subs [simp]:
  "subscriptions ex_streaming s k =
     (if s = ''S'' \<and> (k = 0 \<or> k = 1) \<or> s = ''S2'' \<and> k = 2 then 1 else 0)"
  by (simp add: subscriptions_def clients_get_def ex_streaming_def ex_client_def)

lemma ex_clients_get:
  "clients_get ex_streaming ''S'' = [ex_client 0 ''S'', ex_client 1 ''S'']"
  "clients_get ex_streaming ''S3'' = []"
  by (simp_all add: clients_get_def ex_streaming_def)

lemma ex_sockets [simp]:
  "readyState (sockets ex_streaming k) = (if k = 1 then CLOSING else OPEN)"
  "received ex_streaming k = []"
  by (simp_all add: ex_streaming_def received_def)

text \<open>Socket \<open>0\<close> of the example is open and registered once under \<open>S\<close>; no client
  is registered under \<open>S3\<close>.\<close>

theorem broadcast_fanout_witness:
  "ex_client 0 ''S'' \<in> set (clients_get ex_streaming ''S'')
   \<and> received (broadcast ex_streaming ''S'' (ex_event 5)) 0 = [ex_event 5]
   \<and> received (publish_all ex_streaming [(''S'', ex_event 1), (''S'', ex_event 2)]) 0
       = [ex_event 1, ex_event 2]
   \<and> clients_get ex_streaming ''S3'' = []
   \<and> broadcast ex_streaming ''S3'' (ex_event 5) = ex_streaming
   \<and> received (publish_all (removeClient ex_streaming ''S'' (ex_client 0 ''S''))
                 [(''S'', ex_event 1), (''S2'', ex_event 2)]) 0 = []"
proof -
  have m: "ex_client 0 ''S'' \<in> set (clients_get ex_streaming ''S'')"
    by (simp add: ex_clients_get)
  have n: "clients_get ex_streaming ''S3'' = []"
    by (simp add: ex_clients_get)
  have o: "\<forall>s. s \<noteq> ''S'' \<longrightarrow> subscriptions ex_streaming s (ws (ex_client 0 ''S'')) = 0"
    by (simp add: ex_client_def)
  note at_S = broadcast_fanout [of ex_streaming "''S''" "ex_event 5" "[ex_event 1, ex_event 2]"
      "ex_client 0 ''S''" "[(''S'', ex_event 1), (''S2'', ex_event 2)]"]
  note at_S3 = broadcast_fanout [of ex_streaming "''S3''" "ex_event 5" "[]"
      "ex_client 0 ''S''" "[]"]
  from at_S m have a: "received (broadcast ex_streaming ''S'' (ex_event 5)) 0 = [ex_event 5]"
    and b: "received (publish_all ex_streaming [(''S'', ex_event 1), (''S'', ex_event 2)]) 0
       = [ex_event 1, ex_event 2]"
    by (auto simp: ex_client_def)
  from at_S o have c: "received (publish_all (removeClient ex_streaming ''S'' (ex_client 0 ''S''))
                 [(''S'', ex_event 1), (''S2'', ex_event 2)]) 0 = []"
    by (simp add: ex_client_def)
  from at_S3 n have d: "broadcast ex_streaming ''S3'' (ex_event 5) = ex_streaming"
    by blast
  from m a b n c d show ?thesis by blast
qed

text \<open>
  The claim as the specification words it, that every observer subscribed to the session
  receives the event, fails at a subscribed observer whose socket is closing: socket \<open>1\<close>
  is registered under \<open>S\<close> and is handed nothing, while socket \<open>0\<close> is handed the event.
\<close>

theorem broadcast_skips_closing_counterexample:
  "ex_client 1 ''S'' \<in> set (clients_get ex_streaming ''S'')
   \<and> received (broadcast ex_streaming ''S'' (ex_event 5)) (ws (ex_client 1 ''S'')) = []
   \<and> received (broadcast ex_streaming ''S'' (ex_event 5)) (ws (ex_client 0 ''S'')) = [ex_event 5]"
  by (simp add: ex_clients_get broadcast_received ex_client_def)


section \<open>A failing observer\<close>

lemma sockets_update_subscriptions [simp]:
  "subscriptions (st\<lparr>sockets := h\<rparr>) s k = subscriptions st s k"
  by (simp add: subscriptions_def clients_get_def)





section \<open>Confinement to the session\<close>


text \<open>Every step of a run keeps two states the same to a socket; a publish to a
  session the socket is not registered under changes nothing for it.\<close>

lemma subscriptions_cong:
  "clients st = clients st' \<Longrightarrow> subscriptions st s k = subscriptions st' s k"
  by (simp add: subscriptions_def clients_get_def)

lemma sendToClient_clients [simp]: "clients (sendToClient st c e) = clients st"
  by (simp add: sendToClient_def)

lemma sendToClient_readyState [simp]:
  "readyState (sockets (sendToClient st c e) j) = readyState (sockets st j)"
  by (simp add: sendToClient_def ws_send_def)

lemma sendToClient_outbox:
  "outbox (sockets (sendToClient st c e) k) =
     outbox (sockets st k) @ (if ws c = k \<and> readyState (sockets st k) = OPEN then [e] else [])"
  by (simp add: sendToClient_def ws_send_def)

lemma addClient_sockets [simp]: "sockets (addClient st sid c) = sockets st"
  by (simp add: addClient_def)

lemma addClient_subscriptions:
  "subscriptions (addClient st sid c) s k =
     subscriptions st s k + (if s = sid \<and> ws c = k then 1 else 0)"
  by (simp add: subscriptions_def addClient_def clients_get_def)

lemma same_view_refl: "same_view k st st"
  by (simp add: same_view_def)

lemma same_view_received: "same_view k st st' \<Longrightarrow> received st k = received st' k"
  by (simp add: same_view_def received_def)

lemma same_view_broadcast:
  assumes "same_view k st st'"
  shows "same_view k (broadcast st sid e) (broadcast st' sid e)"
proof -
  from assms have c: "clients st = clients st'"
    and r: "\<And>j. readyState (sockets st j) = readyState (sockets st' j)"
    and o: "outbox (sockets st k) = outbox (sockets st' k)"
    by (simp_all add: same_view_def)
  from c have "subscriptions st sid k = subscriptions st' sid k" by (rule subscriptions_cong)
  with r o have "received (broadcast st sid e) k = received (broadcast st' sid e) k"
    unfolding broadcast_received by (simp add: received_def)
  with c r show ?thesis by (simp add: same_view_def received_def)
qed

lemma same_view_sendToClient:
  assumes "same_view k st st'"
  shows "same_view k (sendToClient st c e) (sendToClient st' c e)"
  using assms by (simp add: same_view_def sendToClient_outbox)

lemma same_view_addClient:
  assumes "same_view k st st'"
  shows "same_view k (addClient st sid c) (addClient st' sid c)"
  using assms by (simp add: same_view_def addClient_def clients_get_def)

lemma same_view_removeClient:
  assumes "same_view k st st'"
  shows "same_view k (removeClient st sid c) (removeClient st' sid c)"
  using assms by (simp add: same_view_def removeClient_def clients_get_def Let_def)

lemma same_view_socket_event:
  assumes "same_view k st st'"
  shows "same_view k (socket_event st ev now) (socket_event st' ev now)"
proof (cases ev)
  case (Connection sock sidParam uidParam)
  then show ?thesis
    using assms
    by (simp add: on_connection_def Let_def same_view_sendToClient same_view_addClient)
next
  case (SocketClose client)
  then show ?thesis using assms by (simp add: on_close_def same_view_removeClient)
next
  case (SocketError client)
  then show ?thesis using assms by (simp add: on_error_def same_view_removeClient)
next
  case (SocketMessage client m)
  then show ?thesis using assms by (cases m) (simp_all add: same_view_sendToClient)
next
  case (SocketState j rs)
  then show ?thesis using assms by (auto simp: same_view_def)
qed

lemma same_view_bus_step:
  "same_view k st st' \<Longrightarrow> same_view k (bus_step st x) (bus_step st' x)"
  by (cases x) (simp_all add: same_view_broadcast same_view_socket_event)

lemma same_view_skip:
  assumes "same_view k st st'" and "subscriptions st s k = 0"
  shows "same_view k (broadcast st s e) st'"
proof -
  from assms(2) have "received (broadcast st s e) k = received st k"
    by (simp add: broadcast_received)
  with assms(1) show ?thesis by (simp add: same_view_def received_def)
qed

text \<open>A socket registered under no session but \<open>sid\<close> stays so.\<close>

lemma socket_event_subscriptions:
  assumes "joins_only sid k (Observer ev now)" and "s \<noteq> sid" and "subscriptions st s k = 0"
  shows "subscriptions (socket_event st ev now) s k = 0"
proof (cases ev)
  case (Connection sock sidParam uidParam)
  with assms show ?thesis
    by (auto simp: on_connection_def Let_def addClient_subscriptions
        subscriptions_cong [OF sendToClient_clients])
next
  case (SocketClose client)
  with assms show ?thesis by (simp add: on_close_def removeClient_subscriptions)
next
  case (SocketError client)
  with assms show ?thesis by (simp add: on_error_def removeClient_subscriptions)
next
  case (SocketMessage client m)
  with assms show ?thesis
    by (cases m) (simp_all add: subscriptions_cong [OF sendToClient_clients])
next
  case (SocketState j rs)
  with assms show ?thesis by simp
qed

lemma bus_step_subscriptions:
  assumes "joins_only sid k x" and "s \<noteq> sid" and "subscriptions st s k = 0"
  shows "subscriptions (bus_step st x) s k = 0"
  using assms by (cases x) (simp_all add: socket_event_subscriptions)

lemma bus_run_purge:
  assumes "same_view k st st'"
    and "\<forall>s. s \<noteq> sid \<longrightarrow> subscriptions st s k = 0"
    and "\<forall>x \<in> set ops. joins_only sid k x"
  shows "same_view k (bus_run st ops) (bus_run st' (purge sid ops))"
  using assms
proof (induction ops arbitrary: st st')
  case Nil
  then show ?case by (simp add: purge_def)
next
  case (Cons x ops)
  have only: "\<forall>s. s \<noteq> sid \<longrightarrow> subscriptions (bus_step st x) s k = 0"
  proof (intro allI impI)
    fix s assume "s \<noteq> sid"
    with Cons.prems(2,3) show "subscriptions (bus_step st x) s k = 0"
      by (intro bus_step_subscriptions [where sid = sid]) simp_all
  qed
  from Cons.prems(3) have rest: "\<forall>y \<in> set ops. joins_only sid k y" by simp
  show ?case
  proof (cases "for_session sid x")
    case True
    from Cons.prems(1) have "same_view k (bus_step st x) (bus_step st' x)"
      by (rule same_view_bus_step)
    from Cons.IH [OF this only rest] True show ?thesis by (simp add: purge_def)
  next
    case False
    then obtain s e where x: "x = Publish s e" and s: "s \<noteq> sid"
      by (cases x) simp_all
    from Cons.prems(2) s have "subscriptions st s k = 0" by simp
    with Cons.prems(1) have "same_view k (broadcast st s e) st'"
      by (rule same_view_skip)
    with x have "same_view k (bus_step st x) st'" by simp
    from Cons.IH [OF this only rest] False show ?thesis by (simp add: purge_def)
  qed
qed

lemma joins_only_purge:
  "(\<forall>x \<in> set (purge sid ops). joins_only sid k x) \<longleftrightarrow> (\<forall>x \<in> set ops. joins_only sid k x)"
proof -
  have "joins_only sid k x" if "\<not> for_session sid x" for x
    using that by (cases x) simp_all
  then show ?thesis by (auto simp: purge_def)
qed

text \<open>
  C9.  \<open>broadcast(sessionId, event)\<close> hands nothing to a socket that has no client
  registered under \<open>sessionId\<close>.  Take two runs of the service, of publishes and socket
  events, that are the same once the publishes to sessions other than \<open>sid\<close> are dropped,
  and a socket that is registered under no session but \<open>sid\<close>, at the start and by the
  connections of the run: both runs hand that socket the same sequence of messages.
\<close>

theorem broadcast_confined:
  "(\<forall>j. subscriptions st sid j = 0 \<longrightarrow> received (broadcast st sid e) j = received st j)
   \<and> (purge sid ops1 = purge sid ops2 \<longrightarrow>
        (\<forall>s. s \<noteq> sid \<longrightarrow> subscriptions st s k = 0) \<longrightarrow>
        (\<forall>x \<in> set ops1. joins_only sid k x) \<longrightarrow>
        received (bus_run st ops1) k = received (bus_run st ops2) k)"
proof (intro conjI allI impI)
  fix j assume "subscriptions st sid j = 0"
  then show "received (broadcast st sid e) j = received st j"
    by (simp add: broadcast_received)
next
  assume same: "purge sid ops1 = purge sid ops2"
    and only: "\<forall>s. s \<noteq> sid \<longrightarrow> subscriptions st s k = 0"
    and j1: "\<forall>x \<in> set ops1. joins_only sid k x"
  from j1 same have j2: "\<forall>x \<in> set ops2. joins_only sid k x"
    using joins_only_purge [of sid ops1 k] joins_only_purge [of sid ops2 k] by simp
  have "same_view k (bus_run st ops1) (bus_run st (purge sid ops1))"
    using same_view_refl only j1 by (rule bus_run_purge)
  moreover have "same_view k (bus_run st ops2) (bus_run st (purge sid ops2))"
    using same_view_refl only j2 by (rule bus_run_purge)
  ultimately show "received (bus_run st ops1) k = received (bus_run st ops2) k"
    using same by (simp add: same_view_received)
qed


text \<open>Socket \<open>2\<close> of the example is registered under \<open>S2\<close> only.  Socket \<open>3\<close> connects
  to \<open>S\<close> in the middle of both runs, which differ in what they publish to \<open>S2\<close>; it is
  sent the acknowledgment of its connection and the one event published to \<open>S\<close> after it.\<close>

theorem broadcast_confined_witness:
  "subscriptions ex_streaming ''S'' 2 = 0
   \<and> received (broadcast ex_streaming ''S'' (ex_event 5)) 2 = []
   \<and> purge ''S'' [Publish ''S'' (ex_event 4), Publish ''S2'' (ex_event 5),
                  Observer (Connection 3 (Some ''S'') None) 6, Publish ''S'' (ex_event 7)]
       = purge ''S'' [Publish ''S2'' (ex_event 8), Publish ''S'' (ex_event 4),
                  Observer (Connection 3 (Some ''S'') None) 6, Publish ''S2'' (ex_event 9),
                  Publish ''S'' (ex_event 7)]
   \<and> received (bus_run ex_streaming
         [Publish ''S'' (ex_event 4), Publish ''S2'' (ex_event 5),
          Observer (Connection 3 (Some ''S'') None) 6, Publish ''S'' (ex_event 7)]) 3
       = received (bus_run ex_streaming
         [Publish ''S2'' (ex_event 8), Publish ''S'' (ex_event 4),
          Observer (Connection 3 (Some ''S'') None) 6, Publish ''S2'' (ex_event 9),
          Publish ''S'' (ex_event 7)]) 3
   \<and> map e_type (received (bus_run ex_streaming
         [Publish ''S'' (ex_event 4), Publish ''S2'' (ex_event 5),
          Observer (Connection 3 (Some ''S'') None) 6, Publish ''S'' (ex_event 7)]) 3)
       = [session_start, log_line]"
proof -
  let ?r1 = "[Publish ''S'' (ex_event 4), Publish ''S2'' (ex_event 5),
          Observer (Connection 3 (Some ''S'') None) 6, Publish ''S'' (ex_event 7)]"
  let ?r2 = "[Publish ''S2'' (ex_event 8), Publish ''S'' (ex_event 4),
          Observer (Connection 3 (Some ''S'') None) 6, Publish ''S2'' (ex_event 9),
          Publish ''S'' (ex_event 7)]"
  note at_S = broadcast_confined [of ex_streaming "''S''" "ex_event 5" ?r1 ?r2 3]
  have z: "subscriptions ex_streaming ''S'' 2 = 0" by simp
  have p: "purge ''S'' ?r1 = purge ''S'' ?r2" by (simp add: purge_def)
  have o: "\<forall>s. s \<noteq> ''S'' \<longrightarrow> subscriptions ex_streaming s 3 = 0" by simp
  have j: "\<forall>x \<in> set ?r1. joins_only ''S'' 3 x" by (simp add: session_of_url_def)
  from at_S z have a: "received (broadcast ex_streaming ''S'' (ex_event 5)) 2 = []"
    by simp
  from at_S p o j have b: "received (bus_run ex_streaming ?r1) 3 = received (bus_run ex_streaming ?r2) 3"
    by blast
  have c: "map e_type (received (bus_run ex_streaming ?r1) 3) = [session_start, log_line]"
    by (simp add: received_def broadcast_def on_connection_def addClient_def sendToClient_def
        ws_send_def deliver_def clients_get_def session_of_url_def ex_streaming_def
        ex_client_def ex_event_def Let_def)
  from z a p b c show ?thesis by blast
qed

section \<open>Properties of the stop route\<close>



lemma setSessionField_id [simp]: "s_id (setSessionField u s) = s_id s"
  by (cases u) simp_all

lemma fold_setSessionField_id [simp]: "s_id (fold setSessionField us s) = s_id s"
  by (induction us arbitrary: s) simp_all

lemma updateSession_tables [simp]:
  "tasks (fst (updateSession d i us now)) = tasks d"
  "approvals (fst (updateSession d i us now)) = approvals d"
  "messages (fst (updateSession d i us now)) = messages d"
  by (simp_all add: updateSession_def Let_def)

lemma snd_updateSession:
  "snd (updateSession d i us now) =
     map_option (\<lambda>s. (fold setSessionField us s)\<lparr>s_updatedAt := now\<rparr>) (getSession d i)"
  by (simp add: getSession_def updateSession_def Let_def find_map_same [where key = s_id])

lemma getSession_updateSession:
  "getSession (fst (updateSession d i us now)) i = snd (updateSession d i us now)"
  by (simp add: getSession_def updateSession_def Let_def)

lemma updateTask_sessions [simp]:
  "getSession (fst (updateTask d i us now)) j = getSession d j"
  by (simp add: getSession_def)

lemma tasks_cancel_if_running:
  "tasks (cancel_if_running now x d) =
     map (\<lambda>t. if t_status x = Running \<and> t_id t = t_id x then t\<lparr>t_status := Cancelled, t_updatedAt := now\<rparr> else t) (tasks d)"
  by (simp add: cancel_if_running_def updateTask_def Let_def)

lemma cancel_if_running_sessions [simp]:
  "sessions (cancel_if_running now x d) = sessions d"
  by (simp add: cancel_if_running_def)

lemma fold_cancel_sessions [simp]:
  "sessions (fold (cancel_if_running now) xs d) = sessions d"
  by (induction xs arbitrary: d) simp_all

lemma tasks_fold_cancel:
  "tasks (fold (cancel_if_running now) xs d) =
     map (\<lambda>t. if t_id t \<in> t_id ` {x \<in> set xs. t_status x = Running} then t\<lparr>t_status := Cancelled, t_updatedAt := now\<rparr> else t)
       (tasks d)"
proof (induction xs arbitrary: d)
  case Nil
  then show ?case by simp
next
  case (Cons x xs)
  have "tasks (fold (cancel_if_running now) (x # xs) d)
      = map (\<lambda>t. if t_id t \<in> t_id ` {x \<in> set xs. t_status x = Running} then t\<lparr>t_status := Cancelled, t_updatedAt := now\<rparr> else t)
          (tasks (cancel_if_running now x d))"
    by (simp add: Cons.IH)
  also have "\<dots> = map (\<lambda>t. if t_id t \<in> t_id ` {y \<in> set (x # xs). t_status y = Running}
                          then t\<lparr>t_status := Cancelled, t_updatedAt := now\<rparr> else t) (tasks d)"
    by (auto simp: tasks_cancel_if_running)
  finally show ?case .
qed

lemma set_getTasksBySession [simp]:
  "set (getTasksBySession d sid) = {t \<in> set (tasks d). t_sessionId t = sid}"
  by (auto simp: getTasksBySession_def)

section \<open>Properties of the run route\<close>


lemma getTask_id: "getTask d i = Some t \<Longrightarrow> t_id t = i"
  by (auto simp: getTask_def find_Some_iff)

lemma getTask_run_start:
  "getTask (db (fst (run_start w task now))) j =
     (if j = t_id task
      then map_option (\<lambda>t. t\<lparr>t_status := Running, currentStep := Some 0, t_updatedAt := now\<rparr>)
             (getTask (db w) j)
      else getTask (db w) j)"
  by (cases "updateTask (db w) (t_id task) [SetStatus Running, SetCurrentStep (Some 0)] now")
     (use getTask_updateTask [of "db w" "t_id task" "[SetStatus Running, SetCurrentStep (Some 0)]" now j]
      in \<open>simp add: run_start_def\<close>)


lemma run_start_tables [simp]:
  "approvals (db (fst (run_start w task now))) = approvals (db w)"
  "sessions (db (fst (run_start w task now))) = sessions (db w)"
  by (cases "updateTask (db w) (t_id task) [SetStatus Running, SetCurrentStep (Some 0)] now";
      use updateTask_other_tables [of "db w" "t_id task" "[SetStatus Running, SetCurrentStep (Some 0)]" now]
      in \<open>simp add: run_start_def\<close>)+

lemma streaming_run_start [simp]:
  "streaming (fst (run_start w task now))
     = sendTaskStart (streaming w) (t_sessionId task) (t_id task) (title task) now"
  by (cases "updateTask (db w) (t_id task) [SetStatus Running, SetCurrentStep (Some 0)] now")
     (simp add: run_start_def)

lemma getTask_run_step:
  "getTask (db (run_step task n now k step w)) j =
     (if j = t_id task
      then map_option (\<lambda>t. t\<lparr>currentStep := Some (int k + 1), t_updatedAt := now\<rparr>)
             (getTask (db w) j)
      else getTask (db w) j)"
  by (simp add: run_step_def Let_def getTask_updateTask)

lemma run_step_tables [simp]:
  "approvals (db (run_step task n now k step w)) = approvals (db w)"
  "sessions (db (run_step task n now k step w)) = sessions (db w)"
  by (simp_all add: run_step_def Let_def)

lemma streaming_run_step [simp]:
  "streaming (run_step task n now k step w)
     = sendTaskStep (streaming w) (t_sessionId task) (t_id task) k n (action step) now"
  by (simp add: run_step_def Let_def)

lemma getTask_run_finish:
  "getTask (db (run_finish w task now)) j =
     (if j = t_id task
      then map_option (\<lambda>t. t\<lparr>t_status := Completed, t_updatedAt := now\<rparr>) (getTask (db w) j)
      else getTask (db w) j)"
  by (simp add: run_finish_def getTask_updateTask)


lemma length_run_loop [simp]: "length (run_loop task n now k steps w) = length steps"
  by (induction steps arbitrary: k w) (simp_all add: Let_def)

lemma run_loop_nth:
  assumes "getTask (db w) (t_id task) = Some t" and "j < length steps"
  shows "getTask (db (run_loop task n now k steps w ! j)) (t_id task)
         = Some (t\<lparr>currentStep := Some (int (k + j) + 1), t_updatedAt := now\<rparr>)"
  using assms
proof (induction steps arbitrary: k w j t)
  case Nil
  then show ?case by simp
next
  case (Cons step rest)
  let ?w' = "run_step task n now k step w"
  have w': "getTask (db ?w') (t_id task)
      = Some (t\<lparr>currentStep := Some (int k + 1), t_updatedAt := now\<rparr>)"
    using Cons.prems(1) by (simp add: getTask_run_step)
  show ?case
  proof (cases j)
    case 0
    then show ?thesis using w' by (simp add: Let_def)
  next
    case (Suc m)
    then have "m < length rest" using Cons.prems(2) by simp
    from Cons.IH [OF w' this, of "Suc k"] Suc show ?thesis
      by (simp add: Let_def)
  qed
qed

lemma run_loop_last:
  assumes "getTask (db w) (t_id task) = Some t"
  shows "getTask (db (last (w # run_loop task n now k steps w))) (t_id task)
         = Some (if steps = [] then t
                 else t\<lparr>currentStep := Some (int (k + length steps)), t_updatedAt := now\<rparr>)"
proof (cases "steps = []")
  case True
  then show ?thesis using assms by simp
next
  case False
  have ne: "run_loop task n now k steps w \<noteq> []"
  proof
    assume "run_loop task n now k steps w = []"
    then have "length (run_loop task n now k steps w) = 0" by simp
    with False show False by simp
  qed
  then have l: "last (w # run_loop task n now k steps w)
      = run_loop task n now k steps w ! (length steps - 1)"
    by (simp add: last_conv_nth)
  from False have lt: "length steps - 1 < length steps" by simp
  have "getTask (db (last (w # run_loop task n now k steps w))) (t_id task)
      = Some (t\<lparr>currentStep := Some (int (k + (length steps - 1)) + 1), t_updatedAt := now\<rparr>)"
    unfolding l by (rule run_loop_nth [OF assms lt])
  moreover have "int (k + (length steps - 1)) + 1 = int (k + length steps)"
    using False by (cases steps) simp_all
  ultimately show ?thesis using False by simp
qed



lemma nth_middle_of:
  "0 < j \<Longrightarrow> j \<le> length xs \<Longrightarrow> (x # xs @ [y]) ! j = xs ! (j - 1)"
  by (cases j) (simp_all add: nth_append)

lemma nth_end_of: "(x # xs @ [y]) ! (length xs + 1) = y"
  by (simp add: nth_append)

text \<open>The row of the task in the state after the \<open>j\<close>-th write of the run.\<close>

lemma run_states_length [simp]:
  "length (run_states w task now) = length (plan_of task) + 2"
  by (simp add: run_states_def Let_def)

lemma run_states_nth:
  assumes "getTask (db w) i = Some task" and "j < length (plan_of task) + 2"
  shows "getTask (db (run_states w task now ! j)) i
         = Some (task\<lparr>t_status := (if j \<le> length (plan_of task) then Running else Completed),
                       currentStep := Some (int (min j (length (plan_of task)))),
                       t_updatedAt := now\<rparr>)"
proof -
  let ?n = "length (plan_of task)"
  let ?w0 = "fst (run_start w task now)"
  let ?ws = "run_loop task ?n now 0 (plan_of task) ?w0"
  let ?t0 = "task\<lparr>t_status := Running, currentStep := Some 0, t_updatedAt := now\<rparr>"
  have i: "t_id task = i" using assms(1) by (rule getTask_id)
  have w0: "getTask (db ?w0) (t_id task) = Some ?t0"
    using assms(1) i by (simp add: getTask_run_start)
  have rs: "run_states w task now = ?w0 # ?ws @ [run_finish (last (?w0 # ?ws)) task now]"
    by (simp add: run_states_def Let_def del: last.simps)
  consider "j = 0" | "0 < j \<and> j \<le> ?n" | "j = ?n + 1"
    using assms(2) by linarith
  then show ?thesis
  proof cases
    case 1
    then show ?thesis using w0 i by (simp add: rs)
  next
    case 2
    then have lt: "j - 1 < length (plan_of task)" by linarith
    from 2 have "run_states w task now ! j = ?ws ! (j - 1)"
      unfolding rs by (intro nth_middle_of) simp_all
    moreover from 2 have "int (j - 1) + 1 = int j" by simp
    ultimately show ?thesis
      using run_loop_nth [OF w0 lt, of ?n now 0] 2 i by simp
  next
    case 3
    have "run_states w task now ! (length ?ws + 1) = run_finish (last (?w0 # ?ws)) task now"
      unfolding rs by (rule nth_end_of)
    with 3 have "run_states w task now ! j = run_finish (last (?w0 # ?ws)) task now"
      by simp
    then show ?thesis
      using run_loop_last [OF w0, of ?n now 0 "plan_of task"] 3 i
      by (simp add: getTask_run_finish)
  qed
qed




section \<open>Running a task\<close>


lemma run_route_snd:
  assumes "getTask (db w) i = Some task"
  shows "snd (run_route w i now) = last (run_states w task now)"
  using assms by (simp add: run_route_def)



lemma resolveApproval_tasks [simp]:
  "tasks (fst (resolveApproval d i status now)) = tasks d"
  by (simp add: resolveApproval_def Let_def)

lemma resolve_route_tasks:
  "tasks (db (snd (resolve_route w i approved dontAskAgain now))) = tasks (db w)"
proof (cases "resolveApproval (db w) i (if approved then Approved else Rejected) now")
  case (Pair d1 r)
  with resolveApproval_tasks [of "db w" i "if approved then Approved else Rejected" now]
  have "tasks d1 = tasks (db w)" by simp
  with Pair show ?thesis
    by (cases r) (simp_all add: resolve_route_def Let_def)
qed





section \<open>Retrying a task\<close>







section \<open>Resolving an approval\<close>

lemma getApproval_resolveApproval:
  "getApproval (fst (resolveApproval d i status now)) j =
     (if j = i then map_option (\<lambda>a. a\<lparr>a_status := status, resolvedAt := Some now\<rparr>) (getApproval d i)
      else getApproval d j)"
  by (simp add: getApproval_def resolveApproval_def Let_def
      find_map_same [where key = a_id] find_map_other [where key = a_id])

lemma snd_resolveApproval:
  "snd (resolveApproval d i status now) =
     map_option (\<lambda>a. a\<lparr>a_status := status, resolvedAt := Some now\<rparr>) (getApproval d i)"
  by (simp add: getApproval_def resolveApproval_def Let_def find_map_same [where key = a_id])

lemma resolveApproval_missing:
  "getApproval d i = None \<Longrightarrow> resolveApproval d i status now = (d, None)"
  by (simp add: getApproval_def resolveApproval_def Let_def map_no_match [where key = a_id]
      find_map_same [where key = a_id])

lemma getApproval_id: "getApproval d i = Some a \<Longrightarrow> a_id a = i"
  by (auto simp: getApproval_def find_Some_iff)

lemma resolve_route_found:
  assumes "getApproval (db w) i = Some a"
  shows "resolve_route w i x dontAskAgain now =
     (Inr (a\<lparr>a_status := (if x then Approved else Rejected), resolvedAt := Some now\<rparr>),
      \<lparr> db = fst (resolveApproval (db w) i (if x then Approved else Rejected) now),
        streaming = broadcast (streaming w) (a_sessionId a)
          \<lparr> e_type = approval_resolved, e_sessionId = a_sessionId a, e_taskId = None,
            e_timestamp = now, e_data = ResolvedData i (if x then Approved else Rejected) \<rparr> \<rparr>)"
proof -
  let ?st = "if x then Approved else Rejected"
  obtain d1 r where u: "resolveApproval (db w) i ?st now = (d1, r)"
    by (cases "resolveApproval (db w) i ?st now")
  have r: "r = Some (a\<lparr>a_status := ?st, resolvedAt := Some now\<rparr>)"
    using snd_resolveApproval [of "db w" i ?st now] assms u by simp
  show ?thesis
    using getApproval_id [OF assms]
    by (simp add: resolve_route_def Let_def u r sendApprovalResolved_def)
qed

text \<open>
  C2, as the code has it.  The resolve route tests only that the approval exists.  Whatever
  the status of the approval, pending or already resolved, the route answers with the
  approval, its status set to the decision of this request and \<open>resolvedAt\<close> to the clock,
  stores that row, and broadcasts one \<open>approval_resolved\<close> event to the approval's session.
  So a second resolve succeeds like the first: it overwrites status and \<open>resolvedAt\<close>, and
  a second event is published.  Only an unknown id is refused, with \<open>404\<close>, and then
  nothing changes.
\<close>

theorem resolve_again_overwrites:
  "(\<forall>a. getApproval (db w) i = Some a \<longrightarrow>
      fst (resolve_route w i x dontAskAgain now)
        = Inr (a\<lparr>a_status := (if x then Approved else Rejected), resolvedAt := Some now\<rparr>)
      \<and> getApproval (db (snd (resolve_route w i x dontAskAgain now))) i
        = Some (a\<lparr>a_status := (if x then Approved else Rejected), resolvedAt := Some now\<rparr>)
      \<and> streaming (snd (resolve_route w i x dontAskAgain now))
        = broadcast (streaming w) (a_sessionId a)
            \<lparr> e_type = approval_resolved, e_sessionId = a_sessionId a, e_taskId = None,
              e_timestamp = now, e_data = ResolvedData i (if x then Approved else Rejected) \<rparr>
      \<and> fst (resolve_route (snd (resolve_route w i x dontAskAgain now)) i y dontAskAgain' now')
        = Inr (a\<lparr>a_status := (if y then Approved else Rejected), resolvedAt := Some now'\<rparr>)
      \<and> streaming (snd (resolve_route (snd (resolve_route w i x dontAskAgain now)) i y
                           dontAskAgain' now'))
        = broadcast
            (broadcast (streaming w) (a_sessionId a)
               \<lparr> e_type = approval_resolved, e_sessionId = a_sessionId a, e_taskId = None,
                 e_timestamp = now, e_data = ResolvedData i (if x then Approved else Rejected) \<rparr>)
            (a_sessionId a)
            \<lparr> e_type = approval_resolved, e_sessionId = a_sessionId a, e_taskId = None,
              e_timestamp = now', e_data = ResolvedData i (if y then Approved else Rejected) \<rparr>)
   \<and> (getApproval (db w) i = None \<longrightarrow>
        resolve_route w i x dontAskAgain now = (Inl (NotFound ''Approval not found''), w))"
proof (intro conjI allI impI)
  fix a assume a: "getApproval (db w) i = Some a"
  let ?a1 = "a\<lparr>a_status := (if x then Approved else Rejected), resolvedAt := Some now\<rparr>"
  let ?w1 = "snd (resolve_route w i x dontAskAgain now)"
  note first = resolve_route_found [OF a, of x dontAskAgain now]
  show "fst (resolve_route w i x dontAskAgain now) = Inr ?a1"
    by (simp add: first)
  have g1: "getApproval (db ?w1) i = Some ?a1"
    by (simp add: first getApproval_resolveApproval a)
  then show "getApproval (db ?w1) i = Some ?a1" .
  show s1: "streaming ?w1
        = broadcast (streaming w) (a_sessionId a)
            \<lparr> e_type = approval_resolved, e_sessionId = a_sessionId a, e_taskId = None,
              e_timestamp = now, e_data = ResolvedData i (if x then Approved else Rejected) \<rparr>"
    by (simp add: first)
  note second = resolve_route_found [OF g1, of y dontAskAgain' now']
  show "fst (resolve_route ?w1 i y dontAskAgain' now')
        = Inr (a\<lparr>a_status := (if y then Approved else Rejected), resolvedAt := Some now'\<rparr>)"
    by (simp add: second)
  show "streaming (snd (resolve_route ?w1 i y dontAskAgain' now'))
        = broadcast
            (broadcast (streaming w) (a_sessionId a)
               \<lparr> e_type = approval_resolved, e_sessionId = a_sessionId a, e_taskId = None,
                 e_timestamp = now, e_data = ResolvedData i (if x then Approved else Rejected) \<rparr>)
            (a_sessionId a)
            \<lparr> e_type = approval_resolved, e_sessionId = a_sessionId a, e_taskId = None,
              e_timestamp = now', e_data = ResolvedData i (if y then Approved else Rejected) \<rparr>"
    by (simp add: second s1)
next
  assume "getApproval (db w) i = None"
  then show "resolve_route w i x dontAskAgain now = (Inl (NotFound ''Approval not found''), w)"
    by (simp add: resolve_route_def Let_def resolveApproval_missing)
qed

text \<open>A pending approval \<open>A\<close> of session \<open>S\<close>.\<close>

lemma ex_getApproval:
  "getApproval (db (ex_world ts [ex_approval ''A'' 4 ApprovalPending])) ''A''
     = Some (ex_approval ''A'' 4 ApprovalPending)"
  "getApproval (db (ex_world ts [ex_approval ''A'' 4 ApprovalPending])) ''B'' = None"
  by (simp_all add: getApproval_def ex_world_def ex_approval_def)

theorem resolve_again_overwrites_witness:
  "getApproval (db (ex_world [] [ex_approval ''A'' 4 ApprovalPending])) ''A''
     = Some (ex_approval ''A'' 4 ApprovalPending)
   \<and> fst (resolve_route (ex_world [] [ex_approval ''A'' 4 ApprovalPending]) ''A'' True False 2)
     = Inr ((ex_approval ''A'' 4 ApprovalPending)\<lparr>a_status := Approved, resolvedAt := Some 2\<rparr>)
   \<and> fst (resolve_route
        (snd (resolve_route (ex_world [] [ex_approval ''A'' 4 ApprovalPending]) ''A'' True False 2))
        ''A'' False False 3)
     = Inr ((ex_approval ''A'' 4 ApprovalPending)\<lparr>a_status := Rejected, resolvedAt := Some 3\<rparr>)
   \<and> getApproval (db (ex_world [] [ex_approval ''A'' 4 ApprovalPending])) ''B'' = None
   \<and> resolve_route (ex_world [] [ex_approval ''A'' 4 ApprovalPending]) ''B'' True False 2
     = (Inl (NotFound ''Approval not found''), ex_world [] [ex_approval ''A'' 4 ApprovalPending])"
proof -
  let ?w = "ex_world [] [ex_approval ''A'' 4 ApprovalPending]"
  note at_A = resolve_again_overwrites [of ?w "''A''" True False 2 False False 3]
  note at_B = resolve_again_overwrites [of ?w "''B''" True False 2 False False 3]
  from at_A ex_getApproval(1) [of "[]"]
  have a: "fst (resolve_route ?w ''A'' True False 2)
     = Inr ((ex_approval ''A'' 4 ApprovalPending)\<lparr>a_status := Approved, resolvedAt := Some 2\<rparr>)"
    and b: "fst (resolve_route (snd (resolve_route ?w ''A'' True False 2)) ''A'' False False 3)
     = Inr ((ex_approval ''A'' 4 ApprovalPending)\<lparr>a_status := Rejected, resolvedAt := Some 3\<rparr>)"
    by simp_all
  from at_B ex_getApproval(2) [of "[]"]
  have c: "resolve_route ?w ''B'' True False 2 = (Inl (NotFound ''Approval not found''), ?w)"
    by blast
  from ex_getApproval [of "[]"] a b c show ?thesis by blast
qed

text \<open>
  The claim asks that a second resolve raise a conflict, publish nothing and leave status
  and \<open>resolvedAt\<close> alone.  Approving \<open>A\<close> at time \<open>2\<close> and then rejecting it at time
  \<open>3\<close>: the second request succeeds, the stored status goes from \<open>approved\<close> to
  \<open>rejected\<close> and \<open>resolvedAt\<close> from \<open>2\<close> to \<open>3\<close>, and the observer on socket
  \<open>0\<close> has been sent two \<open>approval_resolved\<close> events.
\<close>

theorem resolve_twice_counterexample:
  "getApproval (db (ex_world [] [ex_approval ''A'' 4 ApprovalPending])) ''A''
     = Some (ex_approval ''A'' 4 ApprovalPending)
   \<and> getApproval
        (db (snd (resolve_route (ex_world [] [ex_approval ''A'' 4 ApprovalPending]) ''A'' True False 2)))
        ''A''
     = Some ((ex_approval ''A'' 4 ApprovalPending)\<lparr>a_status := Approved, resolvedAt := Some 2\<rparr>)
   \<and> resolve_route
        (snd (resolve_route (ex_world [] [ex_approval ''A'' 4 ApprovalPending]) ''A'' True False 2))
        ''A'' False False 3
     = (Inr ((ex_approval ''A'' 4 ApprovalPending)\<lparr>a_status := Rejected, resolvedAt := Some 3\<rparr>),
        snd (resolve_route
          (snd (resolve_route (ex_world [] [ex_approval ''A'' 4 ApprovalPending]) ''A'' True False 2))
          ''A'' False False 3))
   \<and> getApproval
        (db (snd (resolve_route
          (snd (resolve_route (ex_world [] [ex_approval ''A'' 4 ApprovalPending]) ''A'' True False 2))
          ''A'' False False 3)))
        ''A''
     = Some ((ex_approval ''A'' 4 ApprovalPending)\<lparr>a_status := Rejected, resolvedAt := Some 3\<rparr>)
   \<and> map e_data (received (streaming (snd (resolve_route
          (snd (resolve_route (ex_world [] [ex_approval ''A'' 4 ApprovalPending]) ''A'' True False 2))
          ''A'' False False 3))) 0)
     = [ResolvedData ''A'' Approved, ResolvedData ''A'' Rejected]"
proof -
  let ?a = "ex_approval ''A'' 4 ApprovalPending"
  let ?w = "ex_world [] [?a]"
  let ?w1 = "snd (resolve_route ?w ''A'' True False 2)"
  let ?w2 = "snd (resolve_route ?w1 ''A'' False False 3)"
  note g0 = ex_getApproval(1) [of "[]"]
  note first = resolve_route_found [OF g0, of True False 2]
  have g1: "getApproval (db ?w1) ''A'' = Some (?a\<lparr>a_status := Approved, resolvedAt := Some 2\<rparr>)"
    by (simp add: first getApproval_resolveApproval g0)
  note second = resolve_route_found [OF g1, of False False 3]
  have r2: "resolve_route ?w1 ''A'' False False 3
     = (Inr (?a\<lparr>a_status := Rejected, resolvedAt := Some 3\<rparr>), ?w2)"
    by (simp add: second)
  have g2: "getApproval (db ?w2) ''A'' = Some (?a\<lparr>a_status := Rejected, resolvedAt := Some 3\<rparr>)"
    by (simp add: second getApproval_resolveApproval g1)
  have s: "streaming ?w = ex_streaming" "a_sessionId ?a = ''S''"
    by (simp_all add: ex_world_def ex_approval_def)
  have s1: "streaming ?w1 = broadcast ex_streaming ''S''
      \<lparr> e_type = approval_resolved, e_sessionId = ''S'', e_taskId = None, e_timestamp = 2,
        e_data = ResolvedData ''A'' Approved \<rparr>"
    unfolding first by (simp add: s)
  have s2: "streaming ?w2 = broadcast (streaming ?w1) ''S''
      \<lparr> e_type = approval_resolved, e_sessionId = ''S'', e_taskId = None, e_timestamp = 3,
        e_data = ResolvedData ''A'' Rejected \<rparr>"
    unfolding second by (simp add: s)
  have ev: "map e_data (received (streaming ?w2) 0)
     = [ResolvedData ''A'' Approved, ResolvedData ''A'' Rejected]"
    unfolding s2 s1 by (simp add: broadcast_received)
  from g0 g1 r2 g2 ev show ?thesis by blast
qed

section \<open>Pending approvals\<close>

lemma count_list_filter:
  "count_list (filter P xs) a = (if P a then count_list xs a else 0)"
  by (induction xs) auto

lemma sorted_map_filter:
  "sorted (map f xs) \<Longrightarrow> sorted (map f (filter P xs))"
  by (induction xs) auto

text \<open>
  C8, as the code has it.  The query returns exactly the approvals of the session whose
  status is \<open>pending\<close>, each as often as the table holds it, and nothing else: no resolved
  approval, no approval of another session.  It has no \<open>orderBy\<close>: the rows come in the
  order of the table scan, so they are ordered by creation time when the table is.  The
  route returns the result of the query and changes nothing.
\<close>

theorem pending_approvals_filter:
  "set (getPendingApprovals d sid)
     = {a \<in> set (approvals d). a_sessionId a = sid \<and> a_status a = ApprovalPending}
   \<and> (\<forall>a. count_list (getPendingApprovals d sid) a
          = (if a_sessionId a = sid \<and> a_status a = ApprovalPending
             then count_list (approvals d) a else 0))
   \<and> subseq (getPendingApprovals d sid) (approvals d)
   \<and> (sorted (map a_createdAt (approvals d))
        \<longrightarrow> sorted (map a_createdAt (getPendingApprovals d sid)))
   \<and> approvals_route w sid = (Inr (getPendingApprovals (db w) sid), w)"
proof (intro conjI allI impI)
  show "set (getPendingApprovals d sid)
     = {a \<in> set (approvals d). a_sessionId a = sid \<and> a_status a = ApprovalPending}"
    by (simp add: getPendingApprovals_def)
  show "count_list (getPendingApprovals d sid) a
          = (if a_sessionId a = sid \<and> a_status a = ApprovalPending
             then count_list (approvals d) a else 0)" for a
    by (simp add: getPendingApprovals_def count_list_filter)
  show "subseq (getPendingApprovals d sid) (approvals d)"
    by (simp add: getPendingApprovals_def)
  show "sorted (map a_createdAt (getPendingApprovals d sid))"
    if "sorted (map a_createdAt (approvals d))"
    using that by (simp add: getPendingApprovals_def sorted_map_filter)
  show "approvals_route w sid = (Inr (getPendingApprovals (db w) sid), w)"
    by (simp add: approvals_route_def)
qed

text \<open>A table in creation order: pending, approved, pending.\<close>

theorem pending_approvals_filter_witness:
  "sorted (map a_createdAt (approvals (db (ex_world []
      [ex_approval ''A'' 3 ApprovalPending, ex_approval ''B'' 4 Approved,
       ex_approval ''C'' 5 ApprovalPending]))))
   \<and> sorted (map a_createdAt (getPendingApprovals (db (ex_world []
      [ex_approval ''A'' 3 ApprovalPending, ex_approval ''B'' 4 Approved,
       ex_approval ''C'' 5 ApprovalPending])) ''S''))
   \<and> getPendingApprovals (db (ex_world []
      [ex_approval ''A'' 3 ApprovalPending, ex_approval ''B'' 4 Approved,
       ex_approval ''C'' 5 ApprovalPending])) ''S''
     = [ex_approval ''A'' 3 ApprovalPending, ex_approval ''C'' 5 ApprovalPending]"
proof -
  let ?w = "ex_world [] [ex_approval ''A'' 3 ApprovalPending, ex_approval ''B'' 4 Approved,
       ex_approval ''C'' 5 ApprovalPending]"
  have h: "sorted (map a_createdAt (approvals (db ?w)))"
    by (simp add: ex_world_def ex_approval_def)
  from pending_approvals_filter [of "db ?w" "''S''" ?w] h
  have a: "sorted (map a_createdAt (getPendingApprovals (db ?w) ''S''))"
    by blast
  have b: "getPendingApprovals (db ?w) ''S''
     = [ex_approval ''A'' 3 ApprovalPending, ex_approval ''C'' 5 ApprovalPending]"
    by (simp add: getPendingApprovals_def ex_world_def ex_approval_def)
  from h a b show ?thesis by blast
qed

text \<open>
  The claim asks for the order of creation.  \<open>createdAt\<close> is stamped by the database, and
  the scan order of a table is not tied to it; on a table that holds the approval created
  at \<open>5\<close> before the one created at \<open>3\<close>, the route returns them in that order.
\<close>

theorem pending_order_counterexample:
  "fst (approvals_route (ex_world []
      [ex_approval ''B'' 5 ApprovalPending, ex_approval ''A'' 3 ApprovalPending]) ''S'')
     = Inr [ex_approval ''B'' 5 ApprovalPending, ex_approval ''A'' 3 ApprovalPending]
   \<and> map a_createdAt (getPendingApprovals (db (ex_world []
      [ex_approval ''B'' 5 ApprovalPending, ex_approval ''A'' 3 ApprovalPending])) ''S'') = [5, 3]
   \<and> \<not> sorted (map a_createdAt (getPendingApprovals (db (ex_world []
      [ex_approval ''B'' 5 ApprovalPending, ex_approval ''A'' 3 ApprovalPending])) ''S''))"
  by (simp add: approvals_route_def getPendingApprovals_def ex_world_def ex_approval_def)

section \<open>Handlers step by step\<close>

text \<open>A handler taken alone is its steps one after the other.\<close>

lemma alone_nonempty: "alone w p now vs \<Longrightarrow> vs \<noteq> []"
  by (induction rule: alone.induct) simp_all

lemma alone_run_loop:
  "alone w (RunLoop task i steps) now
     (run_loop task (length (plan_of task)) now i steps w
        @ [run_finish (last (w # run_loop task (length (plan_of task)) now i steps w)) task now])"
proof (induction steps arbitrary: i w)
  case Nil
  show ?case by (simp add: alone_return)
next
  case (Cons step rest)
  let ?w' = "run_step task (length (plan_of task)) now i step w"
  have "advance w (RunLoop task i (step # rest)) now = (?w', Some (RunLoop task (Suc i) rest))"
    by simp
  from alone_advance [OF this Cons.IH [where i = "Suc i" and w = ?w']] show ?case
    by (simp add: Let_def)
qed

lemma alone_run: "alone w (RunStart task) now (run_states w task now)"
proof -
  let ?w0 = "fst (run_start w task now)"
  have "advance w (RunStart task) now = (?w0, Some (RunLoop task 0 (plan_of task)))"
    by simp
  from alone_advance [OF this alone_run_loop [of ?w0 task 0 "plan_of task" now]] show ?thesis
    by (simp add: run_states_def Let_def del: last.simps)
qed

lemma alone_stop_loop:
  "\<exists>vs. alone w (StopLoop sid rest) now vs
     \<and> last vs = \<lparr> db = fold (cancel_if_running now) rest (db w),
                    streaming = sendLogLine (streaming w) sid None
                      ''Emergency stop triggered - all processes terminated'' ''warn'' now \<rparr>"
proof (induction rest arbitrary: w)
  case Nil
  have "advance w (StopLoop sid []) now =
      (w\<lparr>streaming := sendLogLine (streaming w) sid None
          ''Emergency stop triggered - all processes terminated'' ''warn'' now\<rparr>, None)"
    by simp
  from alone_return [OF this]
  have "alone w (StopLoop sid []) now
      [w\<lparr>streaming := sendLogLine (streaming w) sid None
          ''Emergency stop triggered - all processes terminated'' ''warn'' now\<rparr>]" .
  moreover have "last [w\<lparr>streaming := sendLogLine (streaming w) sid None
          ''Emergency stop triggered - all processes terminated'' ''warn'' now\<rparr>]
      = \<lparr> db = fold (cancel_if_running now) [] (db w),
          streaming = sendLogLine (streaming w) sid None
            ''Emergency stop triggered - all processes terminated'' ''warn'' now \<rparr>"
    by (cases w) simp
  ultimately show ?case by blast
next
  case (Cons task rest)
  let ?w' = "w\<lparr>db := cancel_if_running now task (db w)\<rparr>"
  have a: "advance w (StopLoop sid (task # rest)) now = (?w', Some (StopLoop sid rest))"
    by simp
  from Cons.IH [of ?w'] obtain vs where vs: "alone ?w' (StopLoop sid rest) now vs"
    and l: "last vs = \<lparr> db = fold (cancel_if_running now) rest (db ?w'),
                    streaming = sendLogLine (streaming ?w') sid None
                      ''Emergency stop triggered - all processes terminated'' ''warn'' now \<rparr>"
    by blast
  from alone_nonempty [OF vs] l have "last (?w' # vs)
      = \<lparr> db = fold (cancel_if_running now) (task # rest) (db w),
          streaming = sendLogLine (streaming w) sid None
            ''Emergency stop triggered - all processes terminated'' ''warn'' now \<rparr>"
    by simp
  with alone_advance [OF a vs] show ?case by blast
qed

lemma start_stop:
  assumes "getSession (db w) sid = Some s"
  shows "start w (Stop sid) now
     = (w\<lparr>db := fst (updateSession (db w) sid [SetSessionStatus Idle] now)\<rparr>, Some (StopRead sid))"
proof (cases "updateSession (db w) sid [SetSessionStatus Idle] now")
  case (Pair d1 r)
  with snd_updateSession [of "db w" sid "[SetSessionStatus Idle]" now] assms
  show ?thesis by auto
qed

lemma alone_stop:
  assumes "getSession (db w) sid = Some s"
  shows "\<exists>vs. alone (fst (start w (Stop sid) now)) (StopRead sid) now vs
           \<and> last vs = snd (stop_route w sid now)"
proof -
  obtain d1 r where u: "updateSession (db w) sid [SetSessionStatus Idle] now = (d1, r)"
    by (cases "updateSession (db w) sid [SetSessionStatus Idle] now")
  with snd_updateSession [of "db w" sid "[SetSessionStatus Idle]" now] assms
  obtain s' where r: "r = Some s'" by auto
  let ?w1 = "w\<lparr>db := d1\<rparr>"
  have s1: "fst (start w (Stop sid) now) = ?w1" by (simp add: u r)
  have a: "advance ?w1 (StopRead sid) now = (?w1, Some (StopLoop sid (getTasksBySession d1 sid)))"
    by simp
  from alone_stop_loop [of ?w1 sid "getTasksBySession d1 sid" now]
  obtain vs where vs: "alone ?w1 (StopLoop sid (getTasksBySession d1 sid)) now vs"
    and l: "last vs = \<lparr> db = fold (cancel_if_running now) (getTasksBySession d1 sid) (db ?w1),
                    streaming = sendLogLine (streaming ?w1) sid None
                      ''Emergency stop triggered - all processes terminated'' ''warn'' now \<rparr>"
    by blast
  from l have "last vs = snd (stop_route w sid now)"
    by (simp add: stop_route_def u r Let_def)
  with alone_nonempty [OF vs] have "last (?w1 # vs) = snd (stop_route w sid now)" by simp
  with alone_advance [OF a vs] s1 show ?thesis by metis
qed

text \<open>What a handler reaches alone, the server reaches.\<close>

lemma reachable_alone:
  "alone w p now vs \<Longrightarrow> reachable w (ps @ p # qs) \<Longrightarrow> reachable (last vs) (ps @ qs)"
proof (induction rule: alone.induct)
  case (alone_return w p now w')
  from reachable_return [OF alone_return.prems alone_return.hyps] show ?case by simp
next
  case (alone_advance w p now w' p' vs)
  from reachable_advance [OF alone_advance.prems alone_advance.hyps(1)]
  have "reachable w' (ps @ p' # qs)" .
  from alone_advance.IH [OF this] alone_nonempty [OF alone_advance.hyps(2)] show ?case by simp
qed

lemma reachable_alone_each:
  "alone w p now vs \<Longrightarrow> reachable w (ps @ p # qs) \<Longrightarrow> v \<in> set vs \<Longrightarrow> \<exists>rs. reachable v rs"
proof (induction rule: alone.induct)
  case (alone_return w p now w')
  from reachable_return [OF alone_return.prems(1) alone_return.hyps] alone_return.prems(2)
  show ?case by auto
next
  case (alone_advance w p now w' p' vs)
  from reachable_advance [OF alone_advance.prems(1) alone_advance.hyps(1)]
  have r: "reachable w' (ps @ p' # qs)" .
  from alone_advance.prems(2) have "v = w' \<or> v \<in> set vs" by simp
  with r alone_advance.IH [OF r] show ?case by blast
qed

lemma reachable_handle:
  assumes "reachable w ps"
  shows "reachable (handle w r now) ps"
proof (cases r)
  case (CreateSession ins newId)
  then have "start w r now = (handle w r now, None)" by simp
  from reachable_start [OF assms this] show ?thesis .
next
  case (PatchSession sid updates)
  then have "start w r now = (handle w r now, None)" by simp
  from reachable_start [OF assms this] show ?thesis .
next
  case (Stop sid)
  show ?thesis
  proof (cases "getSession (db w) sid")
    case None
    with snd_updateSession [of "db w" sid "[SetSessionStatus Idle]" now]
    have "start w (Stop sid) now = (handle w (Stop sid) now, None)"
      by (cases "updateSession (db w) sid [SetSessionStatus Idle] now")
         (auto simp: stop_route_def)
    from reachable_start [OF assms this] Stop show ?thesis by simp
  next
    case (Some s)
    have "fst (start w (Stop sid) now)
        = w\<lparr>db := fst (updateSession (db w) sid [SetSessionStatus Idle] now)\<rparr>"
      by (simp only: start_stop [OF Some] fst_conv)
    with reachable_given_way [OF assms start_stop [OF Some, of now]]
    have "reachable (fst (start w (Stop sid) now)) (ps @ StopRead sid # [])"
      by simp
    moreover from alone_stop [OF Some, of now] obtain vs
      where "alone (fst (start w (Stop sid) now)) (StopRead sid) now vs"
        and "last vs = snd (stop_route w sid now)" by blast
    ultimately show ?thesis using reachable_alone Stop by fastforce
  qed
next
  case (SendMessage sid body mid1 mid2 tid)
  show ?thesis
  proof (cases "snd (start w r now)")
    case None
    then have "start w r now = (handle w r now, None)"
      using SendMessage
      by (auto simp: send_message_route_def split: option.splits if_splits sum.splits)
    from reachable_start [OF assms this] show ?thesis .
  next
    case (Some p)
    then obtain c d1 m1 where c: "body = Some c" "c \<noteq> []"
      and m1: "createMessage (db w) (user_message sid c) mid1 now = Inr (d1, m1)"
      and p: "p = MessageReply sid c mid2 tid"
      using SendMessage by (auto split: option.splits if_splits sum.splits)
    let ?w1 = "\<lparr> db = d1,
        streaming = sendLogLine (streaming w) sid None (received_line c) ''info'' now \<rparr>"
    have "start w r now = (?w1, Some p)" using SendMessage c m1 p by simp
    from reachable_given_way [OF assms this]
    have r1: "reachable ?w1 (ps @ p # [])" by simp
    show ?thesis
    proof (cases "createMessage d1 (agent_message sid c) mid2 now")
      case (Inl e)
      then have "advance ?w1 p now = (?w1, None)" using p by simp
      from reachable_return [OF r1 this] SendMessage c m1 Inl show ?thesis
        by (simp add: send_message_route_def Let_def)
    next
      case (Inr q)
      obtain d2 m2 where q: "q = (d2, m2)" by (cases q)
      let ?w2 = "?w1\<lparr>db := d2\<rparr>"
      have "advance ?w1 p now = (?w2, Some (MessageTask sid c tid))" using p Inr q by simp
      from reachable_advance [OF r1 this]
      have r2: "reachable ?w2 (ps @ MessageTask sid c tid # [])" .
      show ?thesis
      proof (cases "createTask d2 (planned_task sid c) tid now")
        case Inl3: (Inl e)
        then have "advance ?w2 (MessageTask sid c tid) now = (?w2, None)" by simp
        from reachable_return [OF r2 this] SendMessage c m1 Inr q Inl3 show ?thesis
          by (simp add: send_message_route_def Let_def)
      next
        case Inr3: (Inr q3)
        obtain d3 t where q3: "q3 = (d3, t)" by (cases q3)
        have "advance ?w2 (MessageTask sid c tid) now = (?w2\<lparr>db := d3\<rparr>, None)"
          using Inr3 q3 by simp
        from reachable_return [OF r2 this] SendMessage c m1 Inr q Inr3 q3 show ?thesis
          by (simp add: send_message_route_def Let_def)
      qed
    qed
  qed
next
  case (Run i)
  show ?thesis
  proof (cases "getTask (db w) i")
    case None
    then have "start w (Run i) now = (handle w (Run i) now, None)"
      by (simp add: run_route_def)
    from reachable_start [OF assms this] Run show ?thesis by simp
  next
    case (Some task)
    then have "start w (Run i) now = (w, Some (RunStart task))" by simp
    from reachable_given_way [OF assms this]
    have "reachable w (ps @ RunStart task # [])" .
    from reachable_alone [OF alone_run this, of now] Run Some show ?thesis
      by (simp add: run_route_def)
  qed
next
  case (Cancel i)
  then have "start w r now = (handle w r now, None)" by simp
  from reachable_start [OF assms this] show ?thesis .
next
  case (Resolve i approved dontAskAgain)
  then have "start w r now = (handle w r now, None)" by simp
  from reachable_start [OF assms this] show ?thesis .
next
  case (Socket ev)
  then have "start w r now = (handle w r now, None)" by simp
  from reachable_start [OF assms this] show ?thesis .
qed

section \<open>What every step keeps\<close>

lemma as_planned_bounds:
  assumes "as_planned t"
  shows "totalSteps t = Some (int (length (plan_of t)))
     \<and> (\<exists>c. currentStep t = Some c \<and> 0 \<le> c \<and> c \<le> int (length (plan_of t)))"
  using assms by (simp add: as_planned_def plan_of_def mock_plan_def)

lemma getTask_in_tasks: "getTask d i = Some t \<Longrightarrow> t \<in> set (tasks d)"
  by (auto simp: getTask_def find_Some_iff)

lemma tasks_updateTask:
  "tasks (fst (updateTask d i us now))
     = map (\<lambda>t. if t_id t = i then (fold setTaskField us t)\<lparr>t_updatedAt := now\<rparr> else t) (tasks d)"
  by (simp add: updateTask_def Let_def)

lemma create_session_route_tasks:
  "tasks (db (snd (create_session_route w ins newId now))) = tasks (db w)"
  by (auto simp: create_session_route_def createSession_def Let_def)

lemma patch_session_route_tasks:
  "tasks (db (snd (patch_session_route w sid updates now))) = tasks (db w)"
proof (cases "updateSession (db w) sid updates now")
  case (Pair d1 r)
  with updateSession_tables(1) [of "db w" sid updates now] have "tasks d1 = tasks (db w)" by simp
  with Pair show ?thesis by (cases r) (simp_all add: patch_session_route_def)
qed

lemma cancel_route_db:
  "db (snd (cancel_route w i now)) = fst (updateTask (db w) i [SetStatus Cancelled] now)"
  by (cases "updateTask (db w) i [SetStatus Cancelled] now")
     (auto simp: cancel_route_def split: option.splits)

lemma createMessage_tasks:
  "createMessage d ins newId now = Inr (d1, m) \<Longrightarrow> tasks d1 = tasks d"
  by (auto simp: createMessage_def Let_def split: if_splits)

lemma createTask_planned:
  "createTask d (planned_task sid c) newId now = Inr (d1, t) \<Longrightarrow>
     tasks d1 = tasks d @ [t] \<and> as_planned t"
  by (auto simp: createTask_def planned_task_def as_planned_def Let_def split: if_splits)

lemma start_keeps:
  assumes rows: "\<forall>t \<in> set (tasks (db w)). as_planned t"
    and s: "start w r now = (w', po)"
  shows "(\<forall>t \<in> set (tasks (db w')). as_planned t) \<and> (\<forall>p. po = Some p \<longrightarrow> in_plan p)"
proof (cases r)
  case (CreateSession ins newId)
  with s rows show ?thesis by (auto simp: create_session_route_tasks)
next
  case (PatchSession sid updates)
  with s rows show ?thesis by (auto simp: patch_session_route_tasks)
next
  case (Stop sid)
  obtain d1 x where u: "updateSession (db w) sid [SetSessionStatus Idle] now = (d1, x)"
    by (cases "updateSession (db w) sid [SetSessionStatus Idle] now")
  with updateSession_tables(1) [of "db w" sid "[SetSessionStatus Idle]" now]
  have "tasks d1 = tasks (db w)" by simp
  with s rows Stop u show ?thesis by (cases x) auto
next
  case (SendMessage sid body mid1 mid2 tid)
  with s rows show ?thesis
    by (auto split: option.splits if_splits sum.splits dest: createMessage_tasks)
next
  case (Run i)
  with s rows show ?thesis
    by (auto simp: as_planned_def split: option.splits dest: getTask_in_tasks)
next
  case (Cancel i)
  with s rows show ?thesis
    by (auto simp: cancel_route_db tasks_updateTask as_planned_def)
next
  case (Resolve i approved dontAskAgain)
  with s rows show ?thesis by (auto simp: resolve_route_tasks)
next
  case (Socket ev)
  with s rows show ?thesis by auto
qed

lemma tasks_run_start:
  "tasks (db (fst (run_start w task now)))
     = map (\<lambda>t. if t_id t = t_id task
                 then t\<lparr>t_status := Running, currentStep := Some 0, t_updatedAt := now\<rparr> else t)
         (tasks (db w))"
  by (simp add: run_start_def updateTask_def Let_def)

lemma tasks_run_step:
  "tasks (db (run_step task n now i step w))
     = map (\<lambda>t. if t_id t = t_id task
                 then t\<lparr>currentStep := Some (int i + 1), t_updatedAt := now\<rparr> else t)
         (tasks (db w))"
  by (simp add: run_step_def updateTask_def Let_def)

lemma tasks_run_finish:
  "tasks (db (run_finish w task now))
     = map (\<lambda>t. if t_id t = t_id task then t\<lparr>t_status := Completed, t_updatedAt := now\<rparr> else t)
         (tasks (db w))"
  by (simp add: run_finish_def updateTask_def Let_def)

lemma drop_mock_plan:
  "step # rest = drop i mock_plan \<Longrightarrow> i < 2 \<and> rest = drop (Suc i) mock_plan"
  by (cases i; cases "i - 1") (auto simp: mock_plan_def)

lemma advance_keeps:
  assumes rows: "\<forall>t \<in> set (tasks (db w)). as_planned t"
    and p: "in_plan p"
    and a: "advance w p now = (w', po)"
  shows "(\<forall>t \<in> set (tasks (db w')). as_planned t) \<and> (\<forall>q. po = Some q \<longrightarrow> in_plan q)"
proof (cases p)
  case (RunStart task)
  with a p rows show ?thesis
    by (auto simp: tasks_run_start plan_of_def as_planned_def)
next
  case (RunLoop task i steps)
  show ?thesis
  proof (cases steps)
    case Nil
    with a RunLoop rows show ?thesis
      by (auto simp: tasks_run_finish as_planned_def)
  next
    case (Cons step rest)
    with p RunLoop have "step # rest = drop i mock_plan" by simp
    from drop_mock_plan [OF this] have i: "i < 2" and r: "rest = drop (Suc i) mock_plan"
      by simp_all
    with a p RunLoop Cons rows show ?thesis
      by (auto simp: tasks_run_step as_planned_def)
  qed
next
  case (StopRead sid)
  with a rows show ?thesis by auto
next
  case (StopLoop sid rest)
  show ?thesis
  proof (cases rest)
    case Nil
    with a StopLoop rows show ?thesis by auto
  next
    case (Cons task ts)
    with a StopLoop rows show ?thesis
      by (auto simp: tasks_cancel_if_running as_planned_def)
  qed
next
  case (MessageReply sid c mid2 tid)
  with a rows show ?thesis
    by (auto split: sum.splits dest: createMessage_tasks)
next
  case (MessageTask sid c tid)
  show ?thesis
  proof (cases "createTask (db w) (planned_task sid c) tid now")
    case (Inl e)
    with a MessageTask rows show ?thesis by auto
  next
    case (Inr q)
    obtain d3 t where q: "q = (d3, t)" by (cases q)
    from createTask_planned [of "db w" sid c tid now d3 t] Inr q
    have "tasks d3 = tasks (db w) @ [t]" and "as_planned t" by simp_all
    with a MessageTask rows Inr q show ?thesis by auto
  qed
qed

lemma reachable_keeps:
  "reachable w ps \<Longrightarrow>
     (\<forall>t \<in> set (tasks (db w)). as_planned t) \<and> (\<forall>p \<in> set ps. in_plan p)"
proof (induction rule: reachable.induct)
  case reachable_init
  show ?case by (simp add: init_world_def)
next
  case (reachable_start w ps r now w')
  with start_keeps [of w r now w' None] show ?case by blast
next
  case (reachable_given_way w ps r now w' p)
  with start_keeps [of w r now w' "Some p"] show ?case by auto
next
  case (reachable_advance w ps p qs now w' p')
  with advance_keeps [of w p now w' "Some p'"] show ?case by auto
next
  case (reachable_return w ps p qs now w')
  with advance_keeps [of w p now w' None] show ?case by auto
qed

section \<open>Properties of the example states\<close>

lemma reachable_begin:
  "reachable w ps \<Longrightarrow> snd (start w r now) = Some p \<Longrightarrow> reachable (fst (start w r now)) (ps @ [p])"
  by (metis prod.collapse reachable_given_way)

lemma reachable_next:
  "reachable w (ps @ p # qs) \<Longrightarrow> snd (advance w p now) = Some p' \<Longrightarrow>
   reachable (fst (advance w p now)) (ps @ p' # qs)"
  by (metis prod.collapse reachable_advance)

lemma ex_reached_tasks: "tasks (db ex_reached) = [ex_created]"
  by (simp add: ex_reached_def ex_created_def init_world_def
      create_session_route_def createSession_def send_message_route_def createMessage_def
      createTask_def user_message_def agent_message_def planned_task_def received_line_def
      int32_def Let_def)

lemma ex_reached_task: "getTask (db ex_reached) ''T'' = Some ex_created"
  by (simp add: getTask_def ex_reached_tasks) (simp add: ex_created_def)

lemma ex_reached_session: "\<exists>s. getSession (db ex_reached) ''S'' = Some s"
  by (simp add: ex_reached_def init_world_def getSession_def
      create_session_route_def createSession_def send_message_route_def createMessage_def
      createTask_def user_message_def agent_message_def planned_task_def received_line_def
      int32_def Let_def)

lemma ex_reached_reachable: "reachable ex_reached []"
  unfolding ex_reached_def by (intro reachable_handle reachable_init)

lemma ex_created_plan: "plan_of ex_created = mock_plan" "t_id ex_created = ''T''"
  "t_sessionId ex_created = ''S''" "t_status ex_created = Pending"
  by (simp_all add: plan_of_def ex_created_def)

lemma ex_snapshot_plan: "plan_of ex_snapshot = mock_plan" "t_id ex_snapshot = ''T''"
  "t_status ex_snapshot = Running" "currentStep ex_snapshot = Some 1"
  by (simp_all add: plan_of_def ex_snapshot_def ex_created_def)

lemma ex_running_reachable: "reachable ex_running [RunLoop ex_created 1 (drop 1 mock_plan)]"
proof -
  let ?w0 = "fst (advance ex_reached (RunStart ex_created) 3)"
  have "snd (start ex_reached (Run ''T'') 3) = Some (RunStart ex_created)"
    "fst (start ex_reached (Run ''T'') 3) = ex_reached"
    by (simp_all add: ex_reached_task)
  from reachable_begin [OF ex_reached_reachable this(1)] this(2)
  have "reachable ex_reached ([] @ RunStart ex_created # [])" by simp
  from reachable_next [OF this, of 3 "RunLoop ex_created 0 mock_plan"]
  have "reachable ?w0 ([] @ RunLoop ex_created 0 mock_plan # [])"
    by (simp add: ex_created_plan)
  from reachable_next [OF this, of 3 "RunLoop ex_created 1 (drop 1 mock_plan)"]
  show ?thesis
    unfolding ex_running_def by (simp add: mock_plan_def)
qed

lemma ex_running_task: "getTask (db ex_running) ''T'' = Some ex_snapshot"
proof -
  let ?w0 = "fst (advance ex_reached (RunStart ex_created) 3)"
  have a: "getTask (db ?w0) ''T''
      = Some (ex_created\<lparr>t_status := Running, currentStep := Some 0, t_updatedAt := 3\<rparr>)"
    by (simp add: getTask_run_start ex_created_plan ex_reached_task)
  obtain s1 s2 where m: "mock_plan = [s1, s2]" by (simp add: mock_plan_def)
  have e: "ex_running = run_step ex_created (length (plan_of ex_created)) 3 0 s1 ?w0"
    by (simp add: ex_running_def m ex_created_plan)
  have "getTask (db (run_step ex_created (length (plan_of ex_created)) 3 0 s1 ?w0)) ''T''
      = Some ex_snapshot"
    unfolding getTask_run_step using a by (simp add: ex_created_plan ex_snapshot_def)
  then show ?thesis by (simp only: e)
qed

lemma ex_rerun_task:
  "getTask (db ex_rerun) ''T''
     = Some (ex_snapshot\<lparr>t_status := Running, currentStep := Some 0, t_updatedAt := 4\<rparr>)"
  by (simp add: ex_rerun_def getTask_run_start ex_snapshot_plan ex_running_task)

section \<open>The step counter of a running task\<close>

text \<open>
  C4, as the code has it.  In every state the server reaches, requests overlapping or not,
  every task has \<open>totalSteps\<close> equal to the length of its plan and
  \<open>0 \<le> currentStep \<le> totalSteps\<close>.  A run of a task \<open>T\<close> that takes its steps with no step
  of another request in between goes through the states \<open>run_states\<close>, each of them a state
  the server reaches and the last of them the state the run route ends in; \<open>T\<close> is running
  in all of them but the last, and from each of them to the next \<open>currentStep\<close> does not
  decrease.
\<close>

theorem currentStep_monotone_bounded:
  assumes "reachable w ps"
  shows "(\<forall>i t. getTask (db w) i = Some t \<longrightarrow>
            totalSteps t = Some (int (length (plan_of t)))
            \<and> (\<exists>c. currentStep t = Some c \<and> 0 \<le> c \<and> c \<le> int (length (plan_of t))))
     \<and> (\<forall>i task. getTask (db w) i = Some task \<longrightarrow>
          start w (Run i) now = (w, Some (RunStart task))
          \<and> alone w (RunStart task) now (run_states w task now)
          \<and> snd (run_route w i now) = last (run_states w task now)
          \<and> length (run_states w task now) = length (plan_of task) + 2
          \<and> (\<forall>j < length (run_states w task now).
               (\<exists>qs. reachable (run_states w task now ! j) qs)
               \<and> (\<exists>t c. getTask (db (run_states w task now ! j)) i = Some t
                    \<and> (j \<le> length (plan_of task) \<longrightarrow> t_status t = Running)
                    \<and> totalSteps t = Some (int (length (plan_of t)))
                    \<and> currentStep t = Some c \<and> 0 \<le> c \<and> c \<le> int (length (plan_of t))))
          \<and> (\<forall>j. Suc j < length (run_states w task now) \<longrightarrow>
               (\<exists>t c t' c'. getTask (db (run_states w task now ! j)) i = Some t
                 \<and> currentStep t = Some c
                 \<and> getTask (db (run_states w task now ! Suc j)) i = Some t'
                 \<and> currentStep t' = Some c' \<and> c \<le> c')))"
proof -
  have rows: "totalSteps t = Some (int (length (plan_of t)))
      \<and> (\<exists>c. currentStep t = Some c \<and> 0 \<le> c \<and> c \<le> int (length (plan_of t)))"
    if "reachable v qs" and "getTask (db v) i = Some t" for v qs i t
    using reachable_keeps [OF that(1)] getTask_in_tasks [OF that(2)] as_planned_bounds by blast
  have run: "start w (Run i) now = (w, Some (RunStart task))
          \<and> alone w (RunStart task) now (run_states w task now)
          \<and> snd (run_route w i now) = last (run_states w task now)
          \<and> length (run_states w task now) = length (plan_of task) + 2
          \<and> (\<forall>j < length (run_states w task now).
               (\<exists>qs. reachable (run_states w task now ! j) qs)
               \<and> (\<exists>t c. getTask (db (run_states w task now ! j)) i = Some t
                    \<and> (j \<le> length (plan_of task) \<longrightarrow> t_status t = Running)
                    \<and> totalSteps t = Some (int (length (plan_of t)))
                    \<and> currentStep t = Some c \<and> 0 \<le> c \<and> c \<le> int (length (plan_of t))))
          \<and> (\<forall>j. Suc j < length (run_states w task now) \<longrightarrow>
               (\<exists>t c t' c'. getTask (db (run_states w task now ! j)) i = Some t
                 \<and> currentStep t = Some c
                 \<and> getTask (db (run_states w task now ! Suc j)) i = Some t'
                 \<and> currentStep t' = Some c' \<and> c \<le> c'))"
    if g: "getTask (db w) i = Some task" for i task
  proof -
    let ?n = "length (plan_of task)"
    let ?rs = "run_states w task now"
    let ?row = "\<lambda>j. task\<lparr>t_status := (if j \<le> ?n then Running else Completed),
                           currentStep := Some (int (min j ?n)), t_updatedAt := now\<rparr>"
    have s: "start w (Run i) now = (w, Some (RunStart task))" using g by simp
    from reachable_given_way [OF assms s]
    have r0: "reachable w (ps @ RunStart task # [])" .
    have al: "alone w (RunStart task) now ?rs" by (rule alone_run)
    have row: "getTask (db (?rs ! j)) i = Some (?row j)" if "j < ?n + 2" for j
      using run_states_nth [OF g that] .
    have b: "\<forall>j < length ?rs.
               (\<exists>qs. reachable (?rs ! j) qs)
               \<and> (\<exists>t c. getTask (db (?rs ! j)) i = Some t
                    \<and> (j \<le> ?n \<longrightarrow> t_status t = Running)
                    \<and> totalSteps t = Some (int (length (plan_of t)))
                    \<and> currentStep t = Some c \<and> 0 \<le> c \<and> c \<le> int (length (plan_of t)))"
    proof (intro allI impI)
      fix j assume lt: "j < length ?rs"
      then have j: "j < ?n + 2" by simp
      from lt have "?rs ! j \<in> set ?rs" by simp
      from reachable_alone_each [OF al r0 this]
      obtain qs where q: "reachable (?rs ! j) qs" by blast
      from rows [OF q row [OF j]]
      have "getTask (db (?rs ! j)) i = Some (?row j)
          \<and> (j \<le> ?n \<longrightarrow> t_status (?row j) = Running)
          \<and> totalSteps (?row j) = Some (int (length (plan_of (?row j))))
          \<and> (\<exists>c. currentStep (?row j) = Some c \<and> 0 \<le> c
                \<and> c \<le> int (length (plan_of (?row j))))"
        using row [OF j] by simp
      with q show "(\<exists>qs. reachable (?rs ! j) qs)
               \<and> (\<exists>t c. getTask (db (?rs ! j)) i = Some t
                    \<and> (j \<le> ?n \<longrightarrow> t_status t = Running)
                    \<and> totalSteps t = Some (int (length (plan_of t)))
                    \<and> currentStep t = Some c \<and> 0 \<le> c \<and> c \<le> int (length (plan_of t)))"
        by blast
    qed
    have c: "\<forall>j. Suc j < length ?rs \<longrightarrow>
          (\<exists>t c t' c'. getTask (db (?rs ! j)) i = Some t
            \<and> currentStep t = Some c
            \<and> getTask (db (?rs ! Suc j)) i = Some t'
            \<and> currentStep t' = Some c' \<and> c \<le> c')"
    proof (intro allI impI)
      fix j assume "Suc j < length ?rs"
      then have j: "j < ?n + 2" "Suc j < ?n + 2" by simp_all
      have "getTask (db (?rs ! j)) i = Some (?row j)
          \<and> currentStep (?row j) = Some (int (min j ?n))
          \<and> getTask (db (?rs ! Suc j)) i = Some (?row (Suc j))
          \<and> currentStep (?row (Suc j)) = Some (int (min (Suc j) ?n))
          \<and> int (min j ?n) \<le> int (min (Suc j) ?n)"
        using row [OF j(1)] row [OF j(2)] by simp
      then show "\<exists>t c t' c'. getTask (db (?rs ! j)) i = Some t
            \<and> currentStep t = Some c
            \<and> getTask (db (?rs ! Suc j)) i = Some t'
            \<and> currentStep t' = Some c' \<and> c \<le> c'"
        by blast
    qed
    from s al run_route_snd [OF g, of now] run_states_length [of w task now] b c
    show ?thesis by blast
  qed
  from rows [OF assms] run show ?thesis by blast
qed

text \<open>The task \<open>T\<close> created by a message, run at time \<open>3\<close> with nothing in between: its
  step counter goes \<open>0, 1, 2, 2\<close>.\<close>

theorem currentStep_monotone_bounded_witness:
  "reachable ex_reached []
   \<and> getTask (db ex_reached) ''T'' = Some ex_created
   \<and> totalSteps ex_created = Some 2 \<and> currentStep ex_created = Some 0
   \<and> alone ex_reached (RunStart ex_created) 3 (run_states ex_reached ex_created 3)
   \<and> length (run_states ex_reached ex_created 3) = 4
   \<and> (\<exists>qs. reachable (run_states ex_reached ex_created 3 ! 1) qs)
   \<and> (\<exists>t c. getTask (db (run_states ex_reached ex_created 3 ! 1)) ''T'' = Some t
         \<and> t_status t = Running \<and> totalSteps t = Some 2 \<and> currentStep t = Some c
         \<and> 0 \<le> c \<and> c \<le> 2)
   \<and> map_option currentStep (getTask (db (run_states ex_reached ex_created 3 ! 0)) ''T'')
       = Some (Some 0)
   \<and> map_option currentStep (getTask (db (run_states ex_reached ex_created 3 ! 1)) ''T'')
       = Some (Some 1)
   \<and> map_option currentStep (getTask (db (run_states ex_reached ex_created 3 ! 2)) ''T'')
       = Some (Some 2)
   \<and> map_option currentStep (getTask (db (run_states ex_reached ex_created 3 ! 3)) ''T'')
       = Some (Some 2)"
proof -
  let ?rs = "run_states ex_reached ex_created 3"
  note r = currentStep_monotone_bounded [OF ex_reached_reachable, of 3]
  from r have run: "alone ex_reached (RunStart ex_created) 3 ?rs
      \<and> length ?rs = length (plan_of ex_created) + 2
      \<and> (\<forall>j < length ?rs.
               (\<exists>qs. reachable (?rs ! j) qs)
               \<and> (\<exists>t c. getTask (db (?rs ! j)) ''T'' = Some t
                    \<and> (j \<le> length (plan_of ex_created) \<longrightarrow> t_status t = Running)
                    \<and> totalSteps t = Some (int (length (plan_of t)))
                    \<and> currentStep t = Some c \<and> 0 \<le> c \<and> c \<le> int (length (plan_of t))))"
    using ex_reached_task by blast
  have n: "length (plan_of ex_created) = 2"
    by (simp add: ex_created_plan mock_plan_def)
  have e: "totalSteps ex_created = Some 2" "currentStep ex_created = Some 0"
    by (simp_all add: ex_created_def)
  from run have al: "alone ex_reached (RunStart ex_created) 3 ?rs" by blast
  from run n have b: "length ?rs = 4" by simp
  have one: "(1::nat) < length ?rs" "(1::nat) \<le> length (plan_of ex_created)"
    using b n by simp_all
  from run have every: "\<forall>j < length ?rs.
               (\<exists>qs. reachable (?rs ! j) qs)
               \<and> (\<exists>t c. getTask (db (?rs ! j)) ''T'' = Some t
                    \<and> (j \<le> length (plan_of ex_created) \<longrightarrow> t_status t = Running)
                    \<and> totalSteps t = Some (int (length (plan_of t)))
                    \<and> currentStep t = Some c \<and> 0 \<le> c \<and> c \<le> int (length (plan_of t)))"
    by blast
  from every [rule_format, OF one(1)] one(2)
  obtain qs t c where q: "reachable (?rs ! 1) qs"
    and t: "getTask (db (?rs ! 1)) ''T'' = Some t" "t_status t = Running"
    "totalSteps t = Some (int (length (plan_of t)))" "currentStep t = Some c" "0 \<le> c"
    "c \<le> int (length (plan_of t))"
    by blast
  from t(1) run_states_nth [OF ex_reached_task, of 1 3] n
  have "plan_of t = plan_of ex_created" by (auto simp: plan_of_def)
  with t n have c: "\<exists>t c. getTask (db (?rs ! 1)) ''T'' = Some t
         \<and> t_status t = Running \<and> totalSteps t = Some 2 \<and> currentStep t = Some c
         \<and> 0 \<le> c \<and> c \<le> 2"
    by auto
  have d: "map_option currentStep (getTask (db (?rs ! 0)) ''T'') = Some (Some 0)"
    "map_option currentStep (getTask (db (?rs ! 1)) ''T'') = Some (Some 1)"
    "map_option currentStep (getTask (db (?rs ! 2)) ''T'') = Some (Some 2)"
    "map_option currentStep (getTask (db (?rs ! 3)) ''T'') = Some (Some 2)"
    using run_states_nth [OF ex_reached_task, of 0 3] run_states_nth [OF ex_reached_task, of 1 3]
      run_states_nth [OF ex_reached_task, of 2 3] run_states_nth [OF ex_reached_task, of 3 3] n
    by simp_all
  from ex_reached_reachable ex_reached_task e al b q c d show ?thesis by blast
qed

text \<open>
  Two runs of one task overlap.  The first run of \<open>T\<close> has made two writes: \<open>T\<close> is running
  at step \<open>1\<close> and the run is still in flight.  A second \<open>POST /run\<close> for \<open>T\<close> is accepted
  (the route tests no status), reads that row and makes its first write: \<open>T\<close> is still
  running and its step counter has gone from \<open>1\<close> back to \<open>0\<close>.
\<close>

theorem second_run_resets_counterexample:
  "reachable ex_running [RunLoop ex_created 1 (drop 1 mock_plan)]
   \<and> map_option t_status (getTask (db ex_running) ''T'') = Some Running
   \<and> map_option currentStep (getTask (db ex_running) ''T'') = Some (Some 1)
   \<and> start ex_running (Run ''T'') 4 = (ex_running, Some (RunStart ex_snapshot))
   \<and> advance ex_running (RunStart ex_snapshot) 4
       = (ex_rerun, Some (RunLoop ex_snapshot 0 mock_plan))
   \<and> reachable ex_rerun [RunLoop ex_created 1 (drop 1 mock_plan), RunLoop ex_snapshot 0 mock_plan]
   \<and> map_option t_status (getTask (db ex_rerun) ''T'') = Some Running
   \<and> map_option currentStep (getTask (db ex_rerun) ''T'') = Some (Some 0)"
proof -
  have a: "map_option t_status (getTask (db ex_running) ''T'') = Some Running"
    "map_option currentStep (getTask (db ex_running) ''T'') = Some (Some 1)"
    by (simp_all add: ex_running_task ex_snapshot_plan)
  have s: "start ex_running (Run ''T'') 4 = (ex_running, Some (RunStart ex_snapshot))"
    by (simp add: ex_running_task)
  have ad: "advance ex_running (RunStart ex_snapshot) 4
       = (ex_rerun, Some (RunLoop ex_snapshot 0 mock_plan))"
    by (simp add: ex_rerun_def ex_snapshot_plan)
  from reachable_given_way [OF ex_running_reachable s]
  have "reachable ex_running
      ([RunLoop ex_created 1 (drop 1 mock_plan)] @ RunStart ex_snapshot # [])" by simp
  from reachable_advance [OF this ad]
  have r: "reachable ex_rerun
      [RunLoop ex_created 1 (drop 1 mock_plan), RunLoop ex_snapshot 0 mock_plan]" by simp
  have b: "map_option t_status (getTask (db ex_rerun) ''T'') = Some Running"
    "map_option currentStep (getTask (db ex_rerun) ''T'') = Some (Some 0)"
    by (simp_all add: ex_rerun_task)
  from ex_running_reachable a s ad r b show ?thesis by blast
qed

section \<open>Emergency stop\<close>

text \<open>
  C3, as the code has it.  Take a session \<open>S\<close> of the store and a stop of \<open>S\<close> whose
  steps are taken with no step of another request in between: it returns in the state
  \<open>stop_route\<close> gives.  There the response and the stored row of \<open>S\<close> have status
  \<open>idle\<close>; no task of \<open>S\<close> has status \<open>running\<close>; every row that was a running task
  of \<open>S\<close> is that row with status \<open>cancelled\<close> (and the clock in \<open>updatedAt\<close>); and the
  streaming service is the one before the request after exactly one \<open>broadcast\<close> to \<open>S\<close>,
  of the \<open>log_line\<close> event that reports the stop.
\<close>

theorem stop_cancels_running:
  assumes "getSession (db w) sid = Some s"
  shows "start w (Stop sid) now
       = (w\<lparr>db := fst (updateSession (db w) sid [SetSessionStatus Idle] now)\<rparr>,
          Some (StopRead sid))
     \<and> (\<exists>vs. alone (fst (start w (Stop sid) now)) (StopRead sid) now vs
            \<and> last vs = snd (stop_route w sid now))
     \<and> fst (stop_route w sid now) = Inr (s\<lparr>s_status := Idle, s_updatedAt := now\<rparr>)
     \<and> getSession (db (snd (stop_route w sid now))) sid = Some (s\<lparr>s_status := Idle, s_updatedAt := now\<rparr>)
     \<and> (\<forall>t \<in> set (tasks (db (snd (stop_route w sid now)))). t_sessionId t = sid \<longrightarrow> t_status t \<noteq> Running)
     \<and> length (tasks (db (snd (stop_route w sid now)))) = length (tasks (db w))
     \<and> (\<forall>k < length (tasks (db w)).
          t_sessionId (tasks (db w) ! k) = sid \<and> t_status (tasks (db w) ! k) = Running \<longrightarrow>
          tasks (db (snd (stop_route w sid now))) ! k
            = (tasks (db w) ! k)\<lparr>t_status := Cancelled, t_updatedAt := now\<rparr>)
     \<and> streaming (snd (stop_route w sid now))
          = broadcast (streaming w) sid
              \<lparr> e_type = log_line, e_sessionId = sid, e_taskId = None, e_timestamp = now,
                e_data = LogData ''Emergency stop triggered - all processes terminated'' ''warn'' \<rparr>"
proof -
  let ?s' = "s\<lparr>s_status := Idle, s_updatedAt := now\<rparr>"
  obtain d1 r where u: "updateSession (db w) sid [SetSessionStatus Idle] now = (d1, r)"
    by (cases "updateSession (db w) sid [SetSessionStatus Idle] now")
  have r: "r = Some ?s'"
    using snd_updateSession [of "db w" sid "[SetSessionStatus Idle]" now] assms u by simp
  have g1: "getSession d1 sid = Some ?s'"
    using getSession_updateSession [of "db w" sid "[SetSessionStatus Idle]" now] u r by simp
  have t1: "tasks d1 = tasks (db w)"
    using updateSession_tables(1) [of "db w" sid "[SetSessionStatus Idle]" now] u by simp
  let ?R = "t_id ` {x \<in> set (getTasksBySession d1 sid). t_status x = Running}"
  let ?d2 = "fold (cancel_if_running now) (getTasksBySession d1 sid) d1"
  have w': "snd (stop_route w sid now) =
      \<lparr> db = ?d2, streaming = sendLogLine (streaming w) sid None
          ''Emergency stop triggered - all processes terminated'' ''warn'' now \<rparr>"
    by (simp add: stop_route_def u r Let_def)
  have ts: "tasks ?d2 = map (\<lambda>t. if t_id t \<in> ?R then t\<lparr>t_status := Cancelled, t_updatedAt := now\<rparr> else t) (tasks (db w))"
    by (simp add: tasks_fold_cancel t1)
  have a: "fst (stop_route w sid now) = Inr ?s'"
    by (simp add: stop_route_def u r Let_def)
  have "sessions ?d2 = sessions d1" by simp
  then have b: "getSession (db (snd (stop_route w sid now))) sid = Some ?s'"
    using g1 by (simp add: w' getSession_def)
  have c: "\<forall>t \<in> set (tasks (db (snd (stop_route w sid now)))). t_sessionId t = sid \<longrightarrow> t_status t \<noteq> Running"
    unfolding w' by (auto simp: ts t1)
  have d: "length (tasks (db (snd (stop_route w sid now)))) = length (tasks (db w))"
    by (simp add: w' ts)
  have e: "\<forall>k < length (tasks (db w)).
          t_sessionId (tasks (db w) ! k) = sid \<and> t_status (tasks (db w) ! k) = Running \<longrightarrow>
          tasks (db (snd (stop_route w sid now))) ! k
            = (tasks (db w) ! k)\<lparr>t_status := Cancelled, t_updatedAt := now\<rparr>"
    unfolding w' by (auto simp: ts t1)
  have f: "streaming (snd (stop_route w sid now))
          = broadcast (streaming w) sid
              \<lparr> e_type = log_line, e_sessionId = sid, e_taskId = None, e_timestamp = now,
                e_data = LogData ''Emergency stop triggered - all processes terminated'' ''warn'' \<rparr>"
    by (simp add: w' sendLogLine_def)
  from start_stop [OF assms, of now] alone_stop [OF assms, of now] a b c d e f
  show ?thesis by blast
qed

text \<open>A running and a completed task of \<open>S\<close>; socket \<open>0\<close> observes \<open>S\<close>.\<close>

theorem stop_cancels_running_witness:
  "getSession (db (ex_world [ex_task Running mock_plan 1,
                             (ex_task Completed mock_plan 2)\<lparr>t_id := ''T2''\<rparr>] [])) ''S''
     = Some ex_session
   \<and> (\<exists>vs. alone (fst (start (ex_world [ex_task Running mock_plan 1,
                                (ex_task Completed mock_plan 2)\<lparr>t_id := ''T2''\<rparr>] []) (Stop ''S'') 9))
                 (StopRead ''S'') 9 vs
            \<and> last vs = snd (stop_route (ex_world [ex_task Running mock_plan 1,
                                (ex_task Completed mock_plan 2)\<lparr>t_id := ''T2''\<rparr>] []) ''S'' 9))
   \<and> fst (stop_route (ex_world [ex_task Running mock_plan 1,
                                (ex_task Completed mock_plan 2)\<lparr>t_id := ''T2''\<rparr>] []) ''S'' 9)
     = Inr (ex_session\<lparr>s_status := Idle, s_updatedAt := 9\<rparr>)
   \<and> tasks (db (snd (stop_route (ex_world [ex_task Running mock_plan 1,
                                (ex_task Completed mock_plan 2)\<lparr>t_id := ''T2''\<rparr>] []) ''S'' 9))) ! 0
     = (ex_task Running mock_plan 1)\<lparr>t_status := Cancelled, t_updatedAt := 9\<rparr>
   \<and> received (streaming (snd (stop_route (ex_world [ex_task Running mock_plan 1,
                                (ex_task Completed mock_plan 2)\<lparr>t_id := ''T2''\<rparr>] []) ''S'' 9))) 0
     = [\<lparr> e_type = log_line, e_sessionId = ''S'', e_taskId = None, e_timestamp = 9,
          e_data = LogData ''Emergency stop triggered - all processes terminated'' ''warn'' \<rparr>]"
proof -
  let ?w = "ex_world [ex_task Running mock_plan 1,
                      (ex_task Completed mock_plan 2)\<lparr>t_id := ''T2''\<rparr>] []"
  have h: "getSession (db ?w) ''S'' = Some ex_session"
    by (simp add: getSession_def ex_world_def ex_session_def)
  note r = stop_cancels_running [OF h, of 9]
  have t0: "0 < length (tasks (db ?w)) \<and> tasks (db ?w) ! 0 = ex_task Running mock_plan 1
      \<and> t_sessionId (tasks (db ?w) ! 0) = ''S'' \<and> t_status (tasks (db ?w) ! 0) = Running"
    by (simp add: ex_world_def ex_task_def)
  from r have al: "\<exists>vs. alone (fst (start ?w (Stop ''S'') 9)) (StopRead ''S'') 9 vs
            \<and> last vs = snd (stop_route ?w ''S'' 9)"
    by blast
  from r have a: "fst (stop_route ?w ''S'' 9) = Inr (ex_session\<lparr>s_status := Idle, s_updatedAt := 9\<rparr>)"
    by blast
  from r t0 have b: "tasks (db (snd (stop_route ?w ''S'' 9))) ! 0
     = (ex_task Running mock_plan 1)\<lparr>t_status := Cancelled, t_updatedAt := 9\<rparr>"
    by metis
  have s: "streaming ?w = ex_streaming" by (simp add: ex_world_def)
  from r have c: "received (streaming (snd (stop_route ?w ''S'' 9))) 0
     = [\<lparr> e_type = log_line, e_sessionId = ''S'', e_taskId = None, e_timestamp = 9,
          e_data = LogData ''Emergency stop triggered - all processes terminated'' ''warn'' \<rparr>]"
    by (simp add: s broadcast_received)
  from h al a b c show ?thesis by blast
qed

text \<open>
  A stop and a run overlap.  The stop of \<open>S\<close> sets the session idle and reads the tasks of
  \<open>S\<close> while \<open>T\<close> is pending; a run of \<open>T\<close> then makes its first write; the stop loops
  over the rows it read, finds none running, sends its log line and returns.  The stop has
  returned, only the run is in flight, and \<open>T\<close>, a task of \<open>S\<close>, is running.
\<close>

theorem stop_race_counterexample:
  "snd (start ex_reached (Stop ''S'') 5) = Some (StopRead ''S'')
   \<and> snd (advance (fst (start ex_reached (Stop ''S'') 5)) (StopRead ''S'') 5)
       = Some (StopLoop ''S'' [ex_created])
   \<and> t_status ex_created = Pending
   \<and> reachable ex_stop_race [RunLoop ex_created 0 mock_plan]
   \<and> map_option s_status (getSession (db ex_stop_race) ''S'') = Some Idle
   \<and> map_option t_sessionId (getTask (db ex_stop_race) ''T'') = Some ''S''
   \<and> map_option t_status (getTask (db ex_stop_race) ''T'') = Some Running"
proof -
  from ex_reached_session obtain s where s: "getSession (db ex_reached) ''S'' = Some s" ..
  let ?d1 = "fst (updateSession (db ex_reached) ''S'' [SetSessionStatus Idle] 5)"
  let ?w1 = "ex_reached\<lparr>db := ?d1\<rparr>"
  let ?w2 = "fst (run_start ?w1 ex_created 6)"
  let ?w4 = "?w2\<lparr>streaming := sendLogLine (streaming ?w2) ''S'' None
          ''Emergency stop triggered - all processes terminated'' ''warn'' 7\<rparr>"
  have st: "start ex_reached (Stop ''S'') 5 = (?w1, Some (StopRead ''S''))"
    by (rule start_stop [OF s])
  have g1: "getTask ?d1 ''T'' = Some ex_created"
    by (simp add: getTask_def ex_reached_tasks ex_created_plan)
  have s1: "getSession ?d1 ''S'' = Some (s\<lparr>s_status := Idle, s_updatedAt := 5\<rparr>)"
    using s by (simp add: getSession_updateSession snd_updateSession)
  have snap: "getTasksBySession ?d1 ''S'' = [ex_created]"
    by (simp add: getTasksBySession_def ex_reached_tasks ex_created_plan)
  have a2: "advance ?w1 (StopRead ''S'') 5 = (?w1, Some (StopLoop ''S'' [ex_created]))"
    by (simp add: snap)
  have a3: "start ?w1 (Run ''T'') 6 = (?w1, Some (RunStart ex_created))"
    by (simp add: g1)
  have a4: "advance ?w1 (RunStart ex_created) 6 = (?w2, Some (RunLoop ex_created 0 mock_plan))"
    by (simp add: ex_created_plan)
  have a5: "advance ?w2 (StopLoop ''S'' [ex_created]) 7 = (?w2, Some (StopLoop ''S'' []))"
    by (simp add: cancel_if_running_def ex_created_plan)
  have a6: "advance ?w2 (StopLoop ''S'' []) 7 = (?w4, None)"
    by simp
  have e: "ex_stop_race = ?w4"
    by (simp only: ex_stop_race_def st a2 a4 a5 a6 fst_conv)
  from reachable_given_way [OF ex_reached_reachable st]
  have "reachable ?w1 ([] @ StopRead ''S'' # [])" by simp
  from reachable_advance [OF this a2]
  have "reachable ?w1 [StopLoop ''S'' [ex_created]]" by simp
  from reachable_given_way [OF this a3]
  have "reachable ?w1 ([StopLoop ''S'' [ex_created]] @ RunStart ex_created # [])" by simp
  from reachable_advance [OF this a4]
  have "reachable ?w2 ([] @ StopLoop ''S'' [ex_created] # [RunLoop ex_created 0 mock_plan])"
    by simp
  from reachable_advance [OF this a5]
  have "reachable ?w2 ([] @ StopLoop ''S'' [] # [RunLoop ex_created 0 mock_plan])" .
  from reachable_return [OF this a6]
  have r: "reachable ex_stop_race [RunLoop ex_created 0 mock_plan]" by (simp add: e)
  have p1: "snd (start ex_reached (Stop ''S'') 5) = Some (StopRead ''S'')"
    by (simp only: st snd_conv)
  have p2: "snd (advance (fst (start ex_reached (Stop ''S'') 5)) (StopRead ''S'') 5)
       = Some (StopLoop ''S'' [ex_created])"
    by (simp only: st a2 fst_conv snd_conv)
  have f1: "map_option s_status (getSession (db ex_stop_race) ''S'') = Some Idle"
    using s1 by (simp add: e getSession_def)
  have g2: "getTask (db ?w2) ''T''
      = Some (ex_created\<lparr>t_status := Running, currentStep := Some 0, t_updatedAt := 6\<rparr>)"
    by (simp add: getTask_run_start g1 ex_created_plan)
  have f2: "map_option t_sessionId (getTask (db ex_stop_race) ''T'') = Some ''S''"
    "map_option t_status (getTask (db ex_stop_race) ''T'') = Some Running"
    using g2 by (simp_all add: e ex_created_plan)
  from p1 p2 ex_created_plan(4) r f1 f2 show ?thesis by blast
qed

end
